theory Spec2Isabelle
  imports Complex_Main
begin

section \<open>Python values, errors and query rows\<close>

text \<open>
  The queue of \<^verbatim>\<open>persistqueue/sqlqueue.py\<close> stores arbitrary Python items. The code
  inspects them in three ways only: \<^verbatim>\<open>x is None\<close>, \<^verbatim>\<open>isinstance(x, int)\<close> and
  \<^verbatim>\<open>isinstance(x, dict) and "pqid" in x\<close>. A dictionary is an association list looked
  up with \<open>map_of\<close>; a float (the timestamps) is a rational.
\<close>

datatype pyval =
    PNone
  | PInt int
  | PFloat rat
  | PStr string
  | PDict "(string \<times> pyval) list"

text \<open>The exceptions the modelled code can raise.\<close>

datatype error =
    Empty
  | ValueError
  | UnboundLocalError
  | IndexError
  | IntegrityError

text \<open>
  The classes of the module. \<^verbatim>\<open>FILOSQLiteQueue\<close> and \<^verbatim>\<open>UniqueQ\<close> inherit every
  method of \<^verbatim>\<open>SQLiteQueue\<close> they do not override; \<^verbatim>\<open>MySQLQueue\<close> has its own copies.
\<close>

datatype variant = SQLiteQueue | FILOSQLiteQueue | UniqueQ | MySQLQueue

text \<open>
  A row as a query returns it. Every \<^verbatim>\<open>SELECT\<close> of the module produces the three
  columns \<^verbatim>\<open>_id, data, timestamp\<close>, except \<^verbatim>\<open>FILOSQLiteQueue._SQL_SELECT\<close>, which
  produces \<^verbatim>\<open>_id, data\<close> only. Indexing a tuple beyond its length raises IndexError.
\<close>

datatype 'b qrow = Row3 int 'b rat | Row2 int 'b

fun col0 :: "'b qrow \<Rightarrow> int" where
  "col0 (Row3 i d t) = i"
| "col0 (Row2 i d) = i"

fun col1 :: "'b qrow \<Rightarrow> 'b" where
  "col1 (Row3 i d t) = d"
| "col1 (Row2 i d) = d"

fun col2 :: "'b qrow \<Rightarrow> error + rat" where
  "col2 (Row3 i d t) = Inr t"
| "col2 (Row2 i d) = Inl IndexError"

section \<open>The table\<close>

text \<open>
  The table \<^verbatim>\<open>(_id INTEGER PRIMARY KEY AUTOINCREMENT, data BLOB, timestamp FLOAT)\<close>:
  the present rows in insertion order, and the largest \<^verbatim>\<open>_id\<close> the table has ever
  assigned (what \<^verbatim>\<open>AUTOINCREMENT\<close> keeps, so that an id is never given twice).
\<close>

type_synonym 'b row = "int \<times> 'b \<times> rat"

record 'b store =
  rows :: "'b row list"
  seq :: int

text \<open>
  The clock read by \<^verbatim>\<open>time.time()\<close> belongs to the world, with the table. The calls
  are run one at a time, by one thread: the clock moves only while a get waits.
\<close>

record 'b world =
  db :: "'b store"
  clock :: rat

text \<open>The serializer is a collaborator of the queue: \<^verbatim>\<open>self._serializer\<close>.\<close>

record 'b serializer =
  dumps :: "pyval \<Rightarrow> 'b"
  dumps_sorted :: "pyval \<Rightarrow> 'b"
  loads :: "'b \<Rightarrow> pyval"

text \<open>The comparison spliced into \<^verbatim>\<open>WHERE {column} {op} ?\<close>.\<close>

datatype cmp = OpEq | OpLe | OpGt

fun op_holds :: "cmp \<Rightarrow> int \<Rightarrow> int \<Rightarrow> bool" where
  "op_holds OpEq a b = (a = b)"
| "op_holds OpLe a b = (a \<le> b)"
| "op_holds OpGt a b = (a > b)"

definition row_id :: "'b row \<Rightarrow> int" where
  "row_id r = fst r"

definition row_data :: "'b row \<Rightarrow> 'b" where
  "row_data r = fst (snd r)"

definition row_ts :: "'b row \<Rightarrow> rat" where
  "row_ts r = snd (snd r)"

text \<open>\<^verbatim>\<open>ORDER BY _id ASC LIMIT 1\<close> and \<^verbatim>\<open>ORDER BY _id DESC LIMIT 1\<close>.\<close>

definition first_asc :: "'b row list \<Rightarrow> 'b row option" where
  "first_asc rs = (if rs = [] then None else Some (arg_min_list row_id rs))"

definition first_desc :: "'b row list \<Rightarrow> 'b row option" where
  "first_desc rs = (if rs = [] then None else Some (arg_min_list (\<lambda>r. - row_id r) rs))"

definition as_row3 :: "'b row \<Rightarrow> 'b qrow" where
  "as_row3 r = Row3 (row_id r) (row_data r) (row_ts r)"

definition as_row2 :: "'b row \<Rightarrow> 'b qrow" where
  "as_row2 r = Row2 (row_id r) (row_data r)"

text \<open>
  Modelled from the spec: \<^verbatim>\<open>SQLBase._select\<close> of \<^verbatim>\<open>persistqueue/sqlbase.py\<close> is not
  among the sources; the SQL texts it runs are. Following the storage contract
  (\<^verbatim>\<open>selectById\<close>, \<^verbatim>\<open>selectAfterCursor\<close>, \<^verbatim>\<open>selectHead\<close>) and "if explicitId given, fetch
  exactly that row (bypasses ordering)": a row id that is given selects by
  \<^verbatim>\<open>_SQL_SELECT_ID\<close>; otherwise a comparison \<^verbatim>\<open>op\<close> with its argument selects by
  \<^verbatim>\<open>_SQL_SELECT_WHERE\<close>; otherwise the head is selected by the class's \<^verbatim>\<open>_SQL_SELECT\<close>.
  A row id that is not an integer matches no row. \<^verbatim>\<open>fetchone()\<close> gives \<^verbatim>\<open>None\<close> when
  no row matches.
\<close>

definition sql_select :: "variant \<Rightarrow> (cmp \<times> int) option \<Rightarrow> pyval \<Rightarrow> 'b store \<Rightarrow> 'b qrow option" where
  "sql_select v wh rowid st =
     (if rowid \<noteq> PNone then
        map_option as_row3 (first_asc (filter (\<lambda>r. PInt (row_id r) = rowid) (rows st)))
      else case wh of
        Some (c, arg) \<Rightarrow>
          map_option as_row3 (first_asc (filter (\<lambda>r. op_holds c (row_id r) arg) (rows st)))
      | None \<Rightarrow>
          (if v = FILOSQLiteQueue then map_option as_row2 (first_desc (rows st))
           else map_option as_row3 (first_asc (rows st))))"

text \<open>
  Modelled from the spec: \<^verbatim>\<open>SQLBase._delete\<close> is not among the sources. It runs
  \<^verbatim>\<open>_SQL_DELETE\<close>, \<^verbatim>\<open>DELETE FROM t WHERE _id {op} ?\<close> (\<^verbatim>\<open>deleteById\<close> with \<^verbatim>\<open>=\<close>,
  \<^verbatim>\<open>deleteUpTo\<close>, inclusive, with \<^verbatim>\<open><=\<close>).
\<close>

definition sql_delete :: "int \<Rightarrow> cmp \<Rightarrow> 'b store \<Rightarrow> 'b store" where
  "sql_delete key c st = st\<lparr>rows := filter (\<lambda>r. \<not> op_holds c (row_id r) key) (rows st)\<rparr>"

text \<open>
  Modelled from the spec: \<^verbatim>\<open>SQLBase._insert_into\<close> is not among the sources. It runs
  \<^verbatim>\<open>_SQL_INSERT\<close> and returns the id the table assigned, the next one after every id
  assigned before ("record ids are unique and strictly increasing in insertion order").
  The table of \<^verbatim>\<open>UniqueQ\<close> is created with \<^verbatim>\<open>UNIQUE (data)\<close>: there the insert "fails
  with ConstraintViolation" (\<^verbatim>\<open>sqlite3.IntegrityError\<close>) when a present row holds the
  same bytes, and the table is unchanged.
\<close>

definition sql_insert_into :: "variant \<Rightarrow> 'b \<Rightarrow> rat \<Rightarrow> 'b store \<Rightarrow> error + (int \<times> 'b store)" where
  "sql_insert_into v obj ts st =
     (if v = UniqueQ \<and> obj \<in> set (map row_data (rows st)) then Inl IntegrityError
      else Inr (seq st + 1, st\<lparr>rows := rows st @ [(seq st + 1, obj, ts)], seq := seq st + 1\<rparr>))"

text \<open>
  Modelled from the spec: \<^verbatim>\<open>SQLBase._update\<close> is not among the sources. It runs
  \<^verbatim>\<open>_SQL_UPDATE\<close>, \<^verbatim>\<open>UPDATE t SET data = ? WHERE _id = ?\<close>: the payload of the row with
  that id is overwritten in place, and a key that no row has changes nothing. Under
  \<^verbatim>\<open>UNIQUE (data)\<close> the statement fails when it would give the row the bytes of another
  present row.
\<close>

definition sql_update :: "variant \<Rightarrow> pyval \<Rightarrow> 'b \<Rightarrow> 'b store \<Rightarrow> error + 'b store" where
  "sql_update v key obj st =
     (if v = UniqueQ \<and> filter (\<lambda>r. PInt (row_id r) = key) (rows st) \<noteq> []
           \<and> obj \<in> set (map row_data (filter (\<lambda>r. PInt (row_id r) \<noteq> key) (rows st)))
      then Inl IntegrityError
      else Inr (st\<lparr>rows := map (\<lambda>r. if PInt (row_id r) = key then (row_id r, obj, row_ts r) else r)
                              (rows st)\<rparr>))"

text \<open>
  Modelled from the spec: \<^verbatim>\<open>SQLBase._count\<close> is not among the sources; \<^verbatim>\<open>count()\<close> is
  the number of present rows.
\<close>

definition sql_count :: "'b store \<Rightarrow> int" where
  "sql_count st = int (length (rows st))"

text \<open>
  Modelled from the spec: \<^verbatim>\<open>SQLBase._task_done\<close> is not among the sources; after the
  batch delete it "persists nothing else", so the visible table is unchanged.
\<close>

definition sql_task_done :: "'b store \<Rightarrow> 'b store" where
  "sql_task_done st = st"

section \<open>The queue handle\<close>

text \<open>
  The fields of \<^verbatim>\<open>self\<close> the methods read and write. \<^verbatim>\<open>put_event\<close> is the wake
  signal: \<open>True\<close> when set.
\<close>

record handle =
  variant :: variant
  auto_commit :: bool
  cursor :: int
  total :: int
  put_event :: bool

type_synonym 'b outcome = "(error + pyval) \<times> handle \<times> 'b world"

text \<open>Dictionary helpers: \<^verbatim>\<open>isinstance(x, dict) and "pqid" in x\<close>, and \<^verbatim>\<open>x.get(k)\<close>.\<close>

fun has_pqid :: "pyval \<Rightarrow> bool" where
  "has_pqid (PDict d) = (map_of d ''pqid'' \<noteq> None)"
| "has_pqid _ = False"

fun dict_get :: "pyval \<Rightarrow> string \<Rightarrow> pyval" where
  "dict_get (PDict d) k = (case map_of d k of None \<Rightarrow> PNone | Some v \<Rightarrow> v)"
| "dict_get _ k = PNone"

fun is_int :: "pyval \<Rightarrow> bool" where
  "is_int (PInt i) = True"
| "is_int _ = False"

text \<open>The dictionary \<^verbatim>\<open>{'pqid': row[0], 'data': item, 'timestamp': row[2]}\<close>.\<close>

definition raw_record :: "int \<Rightarrow> pyval \<Rightarrow> rat \<Rightarrow> pyval" where
  "raw_record i item ts = PDict [(''pqid'', PInt i), (''data'', item), (''timestamp'', PFloat ts)]"

text \<open>
  The tail shared by both branches of \<^verbatim>\<open>_pop\<close>: deserialize \<^verbatim>\<open>row[1]\<close>, then build the
  raw dictionary (reading \<^verbatim>\<open>row[2]\<close>) or return the item. The state has already been
  changed when \<^verbatim>\<open>row[2]\<close> raises.
\<close>

definition pop_result :: "'b serializer \<Rightarrow> bool \<Rightarrow> 'b qrow \<Rightarrow> error + pyval" where
  "pop_result ser raw row =
     (let item = loads ser (col1 row) in
      if raw then (case col2 row of Inl e \<Rightarrow> Inl e | Inr ts \<Rightarrow> Inr (raw_record (col0 row) item ts))
      else Inr item)"

text \<open>
  \<^verbatim>\<open>SQLiteQueue._pop\<close> (inherited by \<^verbatim>\<open>FILOSQLiteQueue\<close> and \<^verbatim>\<open>UniqueQ\<close>). The test
  \<^verbatim>\<open>row and row[0] is not None\<close> holds for every row of the table, whose key is an
  integer.
\<close>

definition pop :: "'b serializer \<Rightarrow> pyval \<Rightarrow> bool \<Rightarrow> handle \<Rightarrow> 'b world \<Rightarrow> 'b outcome" where
  "pop ser rowid raw h w =
     (if auto_commit h then
        (case sql_select (variant h) None rowid (db w) of
           Some row \<Rightarrow>
             (pop_result ser raw row,
              h\<lparr>total := total h - 1\<rparr>,
              w\<lparr>db := sql_delete (col0 row) OpEq (db w)\<rparr>)
         | None \<Rightarrow> (Inr PNone, h, w))
      else
        (case sql_select (variant h) (Some (OpGt, cursor h)) rowid (db w) of
           Some row \<Rightarrow>
             (pop_result ser raw row,
              h\<lparr>cursor := col0 row, total := total h - 1\<rparr>,
              w)
         | None \<Rightarrow> (Inr PNone, h, w)))"

text \<open>\<^verbatim>\<open>MySQLQueue._pop\<close>: one path, whatever \<^verbatim>\<open>auto_commit\<close> is.\<close>

definition mysql_pop :: "'b serializer \<Rightarrow> pyval \<Rightarrow> bool \<Rightarrow> handle \<Rightarrow> 'b world \<Rightarrow> 'b outcome" where
  "mysql_pop ser rowid raw h w =
     (case sql_select (variant h) None rowid (db w) of
        Some row \<Rightarrow>
          (pop_result ser raw row, h, w\<lparr>db := sql_delete (col0 row) OpEq (db w)\<rparr>)
      | None \<Rightarrow> (Inr PNone, h, w))"

text \<open>\<^verbatim>\<open>self._pop\<close>, dispatched on the class of the handle.\<close>

definition self_pop :: "'b serializer \<Rightarrow> pyval \<Rightarrow> bool \<Rightarrow> handle \<Rightarrow> 'b world \<Rightarrow> 'b outcome" where
  "self_pop ser rowid raw h w =
     (if variant h = MySQLQueue then mysql_pop ser rowid raw h w else pop ser rowid raw h w)"

section \<open>The public operations\<close>

text \<open>
  \<^verbatim>\<open>put\<close>. \<^verbatim>\<open>SQLiteQueue.put\<close> (inherited by \<^verbatim>\<open>FILOSQLiteQueue\<close>) serializes, inserts,
  increments \<^verbatim>\<open>total\<close>, sets the wake signal and returns the id; an exception of the
  insert propagates. \<^verbatim>\<open>UniqueQ.put\<close> serializes with \<^verbatim>\<open>sort_keys=True\<close>, and on
  \<^verbatim>\<open>sqlite3.IntegrityError\<close> passes and returns \<^verbatim>\<open>None\<close>. \<^verbatim>\<open>MySQLQueue.put\<close> does not
  touch \<^verbatim>\<open>total\<close>.
\<close>

definition put :: "'b serializer \<Rightarrow> pyval \<Rightarrow> handle \<Rightarrow> 'b world \<Rightarrow> 'b outcome" where
  "put ser item h w =
     (if variant h = UniqueQ then
        (case sql_insert_into (variant h) (dumps_sorted ser item) (clock w) (db w) of
           Inl e \<Rightarrow> (if e = IntegrityError then (Inr PNone, h, w) else (Inl e, h, w))
         | Inr (i, st) \<Rightarrow>
             (Inr (PInt i), h\<lparr>total := total h + 1, put_event := True\<rparr>, w\<lparr>db := st\<rparr>))
      else if variant h = MySQLQueue then
        (case sql_insert_into (variant h) (dumps ser item) (clock w) (db w) of
           Inl e \<Rightarrow> (Inl e, h, w)
         | Inr (i, st) \<Rightarrow> (Inr (PInt i), h\<lparr>put_event := True\<rparr>, w\<lparr>db := st\<rparr>))
      else
        (case sql_insert_into (variant h) (dumps ser item) (clock w) (db w) of
           Inl e \<Rightarrow> (Inl e, h, w)
         | Inr (i, st) \<Rightarrow>
             (Inr (PInt i), h\<lparr>total := total h + 1, put_event := True\<rparr>, w\<lparr>db := st\<rparr>)))"

text \<open>
  \<^verbatim>\<open>_init\<close>, run when a handle is opened: in deferred-commit mode the cursor is
  refreshed from the head, then \<^verbatim>\<open>total\<close> is counted. The handle it receives is the one
  the constructor built (class and \<^verbatim>\<open>auto_commit\<close> chosen by the caller).
\<close>

definition init :: "handle \<Rightarrow> 'b world \<Rightarrow> handle" where
  "init h w =
     (let h1 = (if \<not> auto_commit h then
                  (case sql_select (variant h) None PNone (db w) of
                     Some head \<Rightarrow> h\<lparr>cursor := col0 head - 1\<rparr>
                   | None \<Rightarrow> h\<lparr>cursor := 0\<rparr>)
                else h)
      in h1\<lparr>total := sql_count (db w)\<rparr>)"

text \<open>
  \<^verbatim>\<open>update\<close>. The local \<^verbatim>\<open>_id\<close> is bound only by the first two \<^verbatim>\<open>if\<close>s: \<open>None\<close>
  below is the unbound local, whose read raises UnboundLocalError. The parameter
  \<^verbatim>\<open>id\<close> is written \<open>ident\<close>, here and in \<^verbatim>\<open>get\<close>.
\<close>

definition update :: "'b serializer \<Rightarrow> pyval \<Rightarrow> pyval \<Rightarrow> handle \<Rightarrow> 'b world \<Rightarrow> 'b outcome" where
  "update ser item ident h w =
     (let (id1, item1) = (if has_pqid item
                          then (Some (dict_get item ''pqid''), dict_get item ''data'')
                          else (None, item));
          id2 = (if ident \<noteq> PNone then Some ident else id1)
      in case id2 of
           None \<Rightarrow> (Inl UnboundLocalError, h, w)
         | Some i \<Rightarrow>
             if i = PNone then (Inl ValueError, h, w)
             else (case sql_update (variant h) i (dumps ser item1) (db w) of
                     Inl e \<Rightarrow> (Inl e, h, w)
                   | Inr st \<Rightarrow> (Inr i, h, w\<lparr>db := st\<rparr>)))"

text \<open>\<^verbatim>\<open>TICK_FOR_WAIT\<close>, in seconds.\<close>

definition TICK_FOR_WAIT :: rat where
  "TICK_FOR_WAIT = 10"

text \<open>
  \<^verbatim>\<open>self.put_event.wait(t)\<close> right after \<^verbatim>\<open>self.put_event.clear()\<close>, in a run where no
  other thread sets the signal meanwhile: the wait lasts its whole timeout.
\<close>

definition event_wait :: "rat \<Rightarrow> 'b world \<Rightarrow> 'b world" where
  "event_wait t w = w\<lparr>clock := clock w + t\<rparr>"

text \<open>
  The loop of the branch \<^verbatim>\<open>timeout is None\<close>, entered with \<^verbatim>\<open>serialized is None\<close>:
  clear, wait one tick, pop again. It may run forever: not returning is \<open>None\<close>.
\<close>

partial_function (option) wait_forever ::
  "'b serializer \<Rightarrow> pyval \<Rightarrow> bool \<Rightarrow> handle \<Rightarrow> 'b world \<Rightarrow> 'b outcome option" where
  "wait_forever ser rowid raw h w =
     (case self_pop ser rowid raw (h\<lparr>put_event := False\<rparr>) (event_wait TICK_FOR_WAIT w) of
        (Inl e, h', w') \<Rightarrow> Some (Inl e, h', w')
      | (Inr v, h', w') \<Rightarrow>
          if v = PNone then wait_forever ser rowid raw h' w' else Some (Inr v, h', w'))"

declare wait_forever.simps [code]

text \<open>
  The loop of the branch with a deadline, entered with \<^verbatim>\<open>serialized is None\<close>: clear,
  raise \<^verbatim>\<open>Empty\<close> once nothing remains of the timeout, otherwise wait
  \<^verbatim>\<open>min(TICK_FOR_WAIT, remaining)\<close> and pop again.
\<close>

partial_function (option) wait_until ::
  "'b serializer \<Rightarrow> rat \<Rightarrow> pyval \<Rightarrow> bool \<Rightarrow> handle \<Rightarrow> 'b world \<Rightarrow> 'b outcome option" where
  "wait_until ser endtime rowid raw h w =
     (let h0 = h\<lparr>put_event := False\<rparr>; remaining = endtime - clock w in
      if remaining \<le> 0 then Some (Inl Empty, h0, w)
      else
        (case self_pop ser rowid raw h0
                (event_wait (if TICK_FOR_WAIT < remaining then TICK_FOR_WAIT else remaining) w) of
           (Inl e, h', w') \<Rightarrow> Some (Inl e, h', w')
         | (Inr v, h', w') \<Rightarrow>
             if v = PNone then wait_until ser endtime rowid raw h' w' else Some (Inr v, h', w')))"

declare wait_until.simps [code]

text \<open>
  \<^verbatim>\<open>get(block, timeout, id, raw)\<close>; the code of \<^verbatim>\<open>SQLiteQueue.get\<close> and of
  \<^verbatim>\<open>MySQLQueue.get\<close> is the same text. The branches are tested in the source's order:
  \<^verbatim>\<open>not block\<close>, \<^verbatim>\<open>timeout is None\<close>, \<^verbatim>\<open>timeout < 0\<close>, else.
\<close>

definition rowid_of :: "pyval \<Rightarrow> pyval" where
  "rowid_of ident = (if has_pqid ident then dict_get ident ''pqid'' else if is_int ident then ident else PNone)"

definition get ::
  "'b serializer \<Rightarrow> bool \<Rightarrow> rat option \<Rightarrow> pyval \<Rightarrow> bool \<Rightarrow> handle \<Rightarrow> 'b world \<Rightarrow> 'b outcome option" where
  "get ser block timeout ident raw h w =
     (let rowid = rowid_of ident in
      if \<not> block then
        (case self_pop ser rowid raw h w of
           (Inl e, h', w') \<Rightarrow> Some (Inl e, h', w')
         | (Inr v, h', w') \<Rightarrow> if v = PNone then Some (Inl Empty, h', w') else Some (Inr v, h', w'))
      else case timeout of
        None \<Rightarrow>
          (case self_pop ser rowid raw h w of
             (Inl e, h', w') \<Rightarrow> Some (Inl e, h', w')
           | (Inr v, h', w') \<Rightarrow>
               if v = PNone then wait_forever ser rowid raw h' w' else Some (Inr v, h', w'))
      | Some t \<Rightarrow>
          if t < 0 then Some (Inl ValueError, h, w)
          else
            (let endtime = clock w + t in
             case self_pop ser rowid raw h w of
               (Inl e, h', w') \<Rightarrow> Some (Inl e, h', w')
             | (Inr v, h', w') \<Rightarrow>
                 if v = PNone then wait_until ser endtime rowid raw h' w'
                 else Some (Inr v, h', w')))"

definition get_nowait :: "'b serializer \<Rightarrow> pyval \<Rightarrow> bool \<Rightarrow> handle \<Rightarrow> 'b world \<Rightarrow> 'b outcome option" where
  "get_nowait ser ident raw h w = get ser False None ident raw h w"

text \<open>
  \<^verbatim>\<open>task_done\<close>: "Persist the current state if auto_commit=False." It changes no field
  of the handle.
\<close>

definition task_done :: "handle \<Rightarrow> 'b world \<Rightarrow> 'b world" where
  "task_done h w =
     (if \<not> auto_commit h then w\<lparr>db := sql_task_done (sql_delete (cursor h) OpLe (db w))\<rparr> else w)"

text \<open>
  The property \<^verbatim>\<open>size\<close> (\<open>size_q\<close> here), and \<^verbatim>\<open>qsize\<close> and \<^verbatim>\<open>empty\<close>
  (\<open>empty_q\<close>). \<open>len\<close> is \<^verbatim>\<open>len(q)\<close>: the built-in calls \<^verbatim>\<open>__len__\<close>, which returns
  \<^verbatim>\<open>size\<close>, and raises ValueError when that is negative.
\<close>

definition size_q :: "handle \<Rightarrow> int" where
  "size_q h = total h"

definition qsize :: "handle \<Rightarrow> int" where
  "qsize h = max 0 (size_q h)"

definition empty_q :: "handle \<Rightarrow> bool" where
  "empty_q h = (size_q h = 0)"

definition len :: "handle \<Rightarrow> error + int" where
  "len h = (if size_q h < 0 then Inl ValueError else Inr (size_q h))"

text \<open>A serializer that stores the value itself, for running the operations on examples.\<close>

definition plain :: "pyval serializer" where
  "plain = \<lparr>dumps = (\<lambda>x. x), dumps_sorted = (\<lambda>x. x), loads = (\<lambda>x. x)\<rparr>"

section \<open>Example tables and handles\<close>

definition table1 :: "pyval world" where
  "table1 = \<lparr>db = \<lparr>rows = [(1, PStr ''a'', 5)], seq = 1\<rparr>, clock = 7\<rparr>"

definition table2 :: "pyval world" where
  "table2 = \<lparr>db = \<lparr>rows = [(1, PStr ''a'', 5), (2, PStr ''b'', 6)], seq = 2\<rparr>, clock = 7\<rparr>"

definition table3 :: "pyval world" where
  "table3 = \<lparr>db = \<lparr>rows = [(1, PStr ''a'', 5), (2, PStr ''b'', 6), (3, PStr ''c'', 6)], seq = 3\<rparr>,
             clock = 7\<rparr>"

definition table0 :: "pyval world" where
  "table0 = \<lparr>db = \<lparr>rows = [], seq = 0\<rparr>, clock = 7\<rparr>"

text \<open>The handle a constructor hands to \<^verbatim>\<open>_init\<close>: class and mode chosen, nothing counted.\<close>

definition fresh :: "variant \<Rightarrow> bool \<Rightarrow> handle" where
  "fresh v ac = \<lparr>variant = v, auto_commit = ac, cursor = 0, total = 0, put_event = False\<rparr>"

definition tableN :: "pyval world" where
  "tableN = \<lparr>db = \<lparr>rows = [(1, PNone, 7), (2, PStr ''b'', 7)], seq = 2\<rparr>, clock = 7\<rparr>"

definition table23 :: "pyval world" where
  "table23 = \<lparr>db = \<lparr>rows = [(2, PStr ''b'', 6), (3, PStr ''c'', 6)], seq = 3\<rparr>, clock = 9\<rparr>"

section \<open>Runs of calls\<close>

text \<open>
  A call of the public interface, made through some handle. A run makes the calls of a
  list one after the other on the same table, each through the handle written next to
  it; it has no value when one of its gets never returns.
\<close>

datatype call =
    Put pyval
  | Get bool "rat option" pyval bool
  | Update pyval pyval
  | TaskDone
  | Open

definition do_call :: "'b serializer \<Rightarrow> call \<Rightarrow> handle \<Rightarrow> 'b world \<Rightarrow> 'b outcome option" where
  "do_call ser c h w =
     (case c of
        Put item \<Rightarrow> Some (put ser item h w)
      | Get block timeout ident raw \<Rightarrow> get ser block timeout ident raw h w
      | Update item ident \<Rightarrow> Some (update ser item ident h w)
      | TaskDone \<Rightarrow> Some (Inr PNone, h, task_done h w)
      | Open \<Rightarrow> Some (Inr PNone, init h w, w))"

fun run :: "'b serializer \<Rightarrow> (handle \<times> call) list \<Rightarrow> 'b world \<Rightarrow> 'b world option" where
  "run ser [] w = Some w"
| "run ser ((h, c) # cs) w =
     (case do_call ser c h w of None \<Rightarrow> None | Some (res, h', w') \<Rightarrow> run ser cs w')"

text \<open>\<open>n\<close> puts, then \<open>n\<close> gets (no explicit id, not raw) with their results in order.\<close>

fun put_all :: "'b serializer \<Rightarrow> pyval list \<Rightarrow> handle \<Rightarrow> 'b world \<Rightarrow> handle \<times> 'b world" where
  "put_all ser [] h w = (h, w)"
| "put_all ser (x # xs) h w = (case put ser x h w of (res, h', w') \<Rightarrow> put_all ser xs h' w')"

fun get_all ::
  "'b serializer \<Rightarrow> bool \<Rightarrow> rat option \<Rightarrow> nat \<Rightarrow> handle \<Rightarrow> 'b world
     \<Rightarrow> ((error + pyval) list \<times> handle \<times> 'b world) option" where
  "get_all ser block timeout 0 h w = Some ([], h, w)"
| "get_all ser block timeout (Suc n) h w =
     (case get ser block timeout PNone False h w of
        None \<Rightarrow> None
      | Some (res, h', w') \<Rightarrow>
          (case get_all ser block timeout n h' w' of
             None \<Rightarrow> None
           | Some (rs, h'', w'') \<Rightarrow> Some (res # rs, h'', w'')))"

section \<open>Notions used in the proofs\<close>

text \<open>
  The outcomes of the successive \<^verbatim>\<open>self._pop\<close> calls one \<^verbatim>\<open>get\<close> makes: the first on
  the state it is called in, each further one after a pop that returned \<^verbatim>\<open>None\<close>, with
  the wake signal cleared and the clock moved on by the wait.
\<close>

inductive popped :: "'b serializer \<Rightarrow> pyval \<Rightarrow> bool \<Rightarrow> handle \<Rightarrow> 'b world \<Rightarrow> 'b outcome \<Rightarrow> bool"
  for ser :: "'b serializer" and rowid :: pyval and raw :: bool
  where
    first: "self_pop ser rowid raw h w = out \<Longrightarrow> popped ser rowid raw h w out"
  | again: "popped ser rowid raw h w (Inr PNone, h1, w1) \<Longrightarrow>
            self_pop ser rowid raw (h1\<lparr>put_event := False\<rparr>) (event_wait d w1) = out \<Longrightarrow>
            popped ser rowid raw h w out"

text \<open>
  How \<^verbatim>\<open>get\<close> delivers the outcome of its last pop: as it is when it is not \<^verbatim>\<open>None\<close>,
  as the exception \<^verbatim>\<open>Empty\<close> otherwise.
\<close>

definition delivered :: "'b outcome \<Rightarrow> 'b outcome \<Rightarrow> bool" where
  "delivered fin out =
     (case fin of (r, h1, w1) \<Rightarrow>
        (r \<noteq> Inr PNone \<and> out = (r, h1, w1))
        \<or> (r = Inr PNone \<and> (out = (Inl Empty, h1, w1) \<or> out = (Inl Empty, h1\<lparr>put_event := False\<rparr>, w1))))"

text \<open>Every present row lies above \<open>c\<close>, and so will every row inserted later.\<close>

definition above :: "int \<Rightarrow> 'b store \<Rightarrow> bool" where
  "above c st = ((\<forall>r\<in>set (rows st). c < row_id r) \<and> c \<le> seq st)"

text \<open>
  Every present key is one the table has assigned; a table that has had no row yet has
  assigned none.
\<close>

definition wf_store :: "'b store \<Rightarrow> bool" where
  "wf_store st = ((\<forall>r\<in>set (rows st). row_id r \<le> seq st) \<and> 0 \<le> seq st)"


text \<open>The rows that puts of \<open>xs\<close> append to a table whose last assigned id is \<open>s\<close>.\<close>

fun queued :: "'b serializer \<Rightarrow> int \<Rightarrow> rat \<Rightarrow> pyval list \<Rightarrow> 'b row list" where
  "queued ser s ts [] = []"
| "queued ser s ts (x # xs) = (s + 1, dumps ser x, ts) # queued ser (s + 1) ts xs"

lemmas run_defs = table0_def table1_def table2_def table3_def table23_def tableN_def fresh_def
  plain_def
  init_def get_def rowid_of_def self_pop_def pop_def mysql_pop_def pop_result_def raw_record_def
  sql_select_def sql_delete_def sql_count_def sql_insert_into_def sql_update_def sql_task_done_def
  task_done_def first_asc_def first_desc_def as_row3_def as_row2_def row_id_def row_data_def
  row_ts_def put_def update_def event_wait_def TICK_FOR_WAIT_def size_q_def qsize_def empty_q_def
  len_def get_nowait_def do_call_def

section \<open>Selecting rows\<close>

lemma first_asc_None_iff: "first_asc rs = None \<longleftrightarrow> rs = []"
  by (simp add: first_asc_def)

lemma first_desc_None_iff: "first_desc rs = None \<longleftrightarrow> rs = []"
  by (simp add: first_desc_def)

lemma first_asc_in: "first_asc rs = Some r \<Longrightarrow> r \<in> set rs"
  by (auto simp: first_asc_def arg_min_list_in split: if_splits)

lemma first_desc_in: "first_desc rs = Some r \<Longrightarrow> r \<in> set rs"
  by (auto simp: first_desc_def arg_min_list_in split: if_splits)

lemma first_asc_id: "first_asc rs = Some r \<Longrightarrow> row_id r = Min (row_id ` set rs)"
  by (auto simp: first_asc_def f_arg_min_list_f split: if_splits)

lemma first_asc_least: "first_asc rs = Some r \<Longrightarrow> x \<in> set rs \<Longrightarrow> row_id r \<le> row_id x"
  by (simp add: first_asc_id)

lemma first_desc_id: "first_desc rs = Some r \<Longrightarrow> row_id r = Max (row_id ` set rs)"
proof -
  assume a: "first_desc rs = Some r"
  then have ne: "rs \<noteq> []" and r: "r = arg_min_list (\<lambda>r. - row_id r) rs"
    by (auto simp: first_desc_def split: if_splits)
  have m: "- row_id r = Min ((\<lambda>r. - row_id r) ` set rs)"
    using f_arg_min_list_f [OF ne, of "\<lambda>r. - row_id r"] r by simp
  have "r \<in> set rs" using a by (rule first_desc_in)
  moreover have "\<forall>x\<in>set rs. row_id x \<le> row_id r"
  proof
    fix x assume x: "x \<in> set rs"
    have "Min ((\<lambda>r. - row_id r) ` set rs) \<le> - row_id x"
      using x by (intro Min_le) auto
    with m show "row_id x \<le> row_id r" by simp
  qed
  ultimately show ?thesis
    by (intro Max_eqI [symmetric]) auto
qed

lemma first_asc_Cons_least:
  "\<forall>x\<in>set rs. row_id r < row_id x \<Longrightarrow> first_asc (r # rs) = Some r"
proof (cases rs)
  case Nil
  then show ?thesis by (simp add: first_asc_def)
next
  case (Cons y ys)
  assume a: "\<forall>x\<in>set rs. row_id r < row_id x"
  have "arg_min_list row_id (y # ys) \<in> set rs"
    using Cons arg_min_list_in [of "y # ys" row_id] by simp
  with a have "row_id r < row_id (arg_min_list row_id (y # ys))" by blast
  then show ?thesis using Cons by (simp add: first_asc_def Let_def)
qed

lemma col0_as_row3 [simp]: "col0 (as_row3 r) = row_id r"
  by (simp add: as_row3_def)

lemma col0_as_row2 [simp]: "col0 (as_row2 r) = row_id r"
  by (simp add: as_row2_def)

text \<open>Whatever a select returns carries the key of a present row.\<close>

lemma sql_select_present:
  "sql_select v wh rowid st = Some q \<Longrightarrow> col0 q \<in> row_id ` set (rows st)"
  by (auto simp: sql_select_def split: if_splits option.splits
           dest!: first_asc_in first_desc_in)

lemma sql_select_after_cursor:
  assumes "sql_select v (Some (OpGt, c)) PNone st = Some q"
  shows "\<exists>r \<in> set (rows st). q = as_row3 r \<and> c < row_id r
           \<and> (\<forall>x \<in> set (rows st). c < row_id x \<longrightarrow> row_id r \<le> row_id x)"
proof -
  from assms obtain r where r: "first_asc (filter (\<lambda>r. c < row_id r) (rows st)) = Some r"
    and q: "q = as_row3 r"
    by (auto simp: sql_select_def)
  from first_asc_in [OF r] have "r \<in> set (rows st)" "c < row_id r" by auto
  moreover have "\<forall>x \<in> set (rows st). c < row_id x \<longrightarrow> row_id r \<le> row_id x"
    using first_asc_least [OF r] by auto
  ultimately show ?thesis using q by blast
qed

text \<open>What \<^verbatim>\<open>_pop\<close> leaves alone.\<close>

lemma pop_frame:
  assumes "pop ser rowid raw h w = (res, h', w')"
  shows "variant h' = variant h \<and> auto_commit h' = auto_commit h \<and> clock w' = clock w
         \<and> seq (db w') = seq (db w) \<and> set (rows (db w')) \<subseteq> set (rows (db w))
         \<and> put_event h' = put_event h"
  using assms by (auto simp: pop_def sql_delete_def split: if_splits option.splits)

lemma mysql_pop_frame:
  assumes "mysql_pop ser rowid raw h w = (res, h', w')"
  shows "variant h' = variant h \<and> auto_commit h' = auto_commit h \<and> clock w' = clock w
         \<and> seq (db w') = seq (db w) \<and> set (rows (db w')) \<subseteq> set (rows (db w))
         \<and> put_event h' = put_event h"
  using assms by (auto simp: mysql_pop_def sql_delete_def split: if_splits option.splits)

lemma self_pop_frame:
  assumes "self_pop ser rowid raw h w = (res, h', w')"
  shows "variant h' = variant h \<and> auto_commit h' = auto_commit h \<and> clock w' = clock w
         \<and> seq (db w') = seq (db w) \<and> set (rows (db w')) \<subseteq> set (rows (db w))
         \<and> put_event h' = put_event h"
  using assms pop_frame [of ser rowid raw h w res h' w']
    mysql_pop_frame [of ser rowid raw h w res h' w']
  by (simp add: self_pop_def split: if_splits)

section \<open>A get as a chain of pops\<close>

lemma wait_forever_popped:
  assumes run: "wait_forever ser rowid raw h1 w1 = Some out"
    and p: "popped ser rowid raw h w (Inr PNone, h1, w1)"
  shows "\<exists>fin. popped ser rowid raw h w fin \<and> delivered fin out"
proof -
  let ?P = "\<lambda>s ri rw h1 w1 out. popped s ri rw h w (Inr PNone, h1, w1)
              \<longrightarrow> (\<exists>fin. popped s ri rw h w fin \<and> delivered fin out)"
  have "?P ser rowid raw h1 w1 out"
  proof (rule wait_forever.raw_induct [where P = ?P, OF _ run])
    fix wf s ri rw h1 w1 out
    assume IH: "\<And>s ri rw h1 w1 out. wf s ri rw h1 w1 = Some out \<Longrightarrow> ?P s ri rw h1 w1 out"
      and body: "(case self_pop s ri rw (h1\<lparr>put_event := False\<rparr>) (event_wait TICK_FOR_WAIT w1) of
                    (Inl e, h', w') \<Rightarrow> Some (Inl e, h', w')
                  | (Inr v, h', w') \<Rightarrow>
                      if v = PNone then wf s ri rw h' w' else Some (Inr v, h', w')) = Some out"
    show "?P s ri rw h1 w1 out"
    proof
      assume p: "popped s ri rw h w (Inr PNone, h1, w1)"
      obtain r h2 w2 where sp:
        "self_pop s ri rw (h1\<lparr>put_event := False\<rparr>) (event_wait TICK_FOR_WAIT w1) = (r, h2, w2)"
        by (metis prod_cases3)
      have p2: "popped s ri rw h w (r, h2, w2)"
        using popped.again [OF p sp] .
      show "\<exists>fin. popped s ri rw h w fin \<and> delivered fin out"
      proof (cases "r = Inr PNone")
        case True
        with body sp have "wf s ri rw h2 w2 = Some out" by simp
        from IH [OF this] p2 True show ?thesis by simp
      next
        case False
        with body sp have "out = (r, h2, w2)" by (auto split: sum.splits if_splits)
        with p2 False show ?thesis by (auto simp: delivered_def)
      qed
    qed
  qed
  with p show ?thesis by simp
qed

lemma wait_until_popped:
  assumes run: "wait_until ser e rowid raw h1 w1 = Some out"
    and p: "popped ser rowid raw h w (Inr PNone, h1, w1)"
  shows "\<exists>fin. popped ser rowid raw h w fin \<and> delivered fin out"
proof -
  let ?P = "\<lambda>s (e::rat) ri rw h1 w1 out. popped s ri rw h w (Inr PNone, h1, w1)
              \<longrightarrow> (\<exists>fin. popped s ri rw h w fin \<and> delivered fin out)"
  have "?P ser e rowid raw h1 w1 out"
  proof (rule wait_until.raw_induct [where P = ?P, OF _ run])
    fix wu s e ri rw h1 w1 out
    assume IH: "\<And>s e ri rw h1 w1 out. wu s e ri rw h1 w1 = Some out \<Longrightarrow> ?P s e ri rw h1 w1 out"
      and body: "(let h0 = h1\<lparr>put_event := False\<rparr>; remaining = e - clock w1 in
      if remaining \<le> 0 then Some (Inl Empty, h0, w1)
      else
        (case self_pop s ri rw h0
                (event_wait (if TICK_FOR_WAIT < remaining then TICK_FOR_WAIT else remaining) w1) of
           (Inl e, h', w') \<Rightarrow> Some (Inl e, h', w')
         | (Inr v, h', w') \<Rightarrow>
             if v = PNone then wu s e ri rw h' w' else Some (Inr v, h', w'))) = Some out"
    show "?P s e ri rw h1 w1 out"
    proof
      assume p: "popped s ri rw h w (Inr PNone, h1, w1)"
      show "\<exists>fin. popped s ri rw h w fin \<and> delivered fin out"
      proof (cases "e - clock w1 \<le> 0")
        case True
        with body have "out = (Inl Empty, h1\<lparr>put_event := False\<rparr>, w1)" by (simp add: Let_def)
        with p show ?thesis by (auto simp: delivered_def)
      next
        case late: False
        let ?d = "if TICK_FOR_WAIT < e - clock w1 then TICK_FOR_WAIT else e - clock w1"
        obtain r h2 w2 where sp:
          "self_pop s ri rw (h1\<lparr>put_event := False\<rparr>) (event_wait ?d w1) = (r, h2, w2)"
          by (metis prod_cases3)
        have p2: "popped s ri rw h w (r, h2, w2)"
          using popped.again [OF p sp] .
        show ?thesis
        proof (cases "r = Inr PNone")
          case True
          with body sp late have "wu s e ri rw h2 w2 = Some out" by (simp add: Let_def)
          from IH [OF this] p2 True show ?thesis by simp
        next
          case False
          with body sp late have "out = (r, h2, w2)"
            by (auto simp: Let_def split: sum.splits if_splits)
          with p2 False show ?thesis by (auto simp: delivered_def)
        qed
      qed
    qed
  qed
  with p show ?thesis by simp
qed

text \<open>Every returning get either rejected its timeout or delivers the outcome of a pop.\<close>

lemma get_popped:
  assumes g: "get ser block timeout ident raw h w = Some out"
  shows "(\<exists>t. block \<and> timeout = Some t \<and> t < 0 \<and> out = (Inl ValueError, h, w))
         \<or> (\<exists>fin. popped ser (rowid_of ident) raw h w fin \<and> delivered fin out)"
proof -
  obtain r h1 w1 where sp: "self_pop ser (rowid_of ident) raw h w = (r, h1, w1)"
    by (metis prod_cases3)
  have p: "popped ser (rowid_of ident) raw h w (r, h1, w1)"
    using sp by (rule popped.first)
  show ?thesis
  proof (cases "block \<and> (\<exists>t. timeout = Some t \<and> t < 0)")
    case True
    with g show ?thesis by (auto simp: get_def)
  next
    case ok: False
    show ?thesis
    proof (cases "r = Inr PNone")
      case False
      with g sp ok have "out = (r, h1, w1)"
        by (auto simp: get_def Let_def split: sum.splits if_splits option.splits)
      with p False show ?thesis by (auto simp: delivered_def)
    next
      case True
      with g sp ok consider
          (now) "out = (Inl Empty, h1, w1)"
        | (forever) "wait_forever ser (rowid_of ident) raw h1 w1 = Some out"
        | (until) e where "wait_until ser e (rowid_of ident) raw h1 w1 = Some out"
        by (auto simp: get_def Let_def split: sum.splits if_splits option.splits)
      then show ?thesis
      proof cases
        case now
        have "delivered (Inr PNone, h1, w1) out"
          using now by (simp add: delivered_def)
        with p True show ?thesis by blast
      next
        case forever
        from wait_forever_popped [OF forever] p True show ?thesis by blast
      next
        case until
        from wait_until_popped [OF until] p True show ?thesis by blast
      qed
    qed
  qed
qed

lemma popped_frame:
  assumes "popped ser rowid raw h w out"
  shows "set (rows (db (snd (snd out)))) \<subseteq> set (rows (db w)) \<and> seq (db (snd (snd out))) = seq (db w)"
  using assms
proof (induction rule: popped.induct)
  case (first h w out)
  then show ?case
    using self_pop_frame [of ser rowid raw h w "fst out" "fst (snd out)" "snd (snd out)"] by simp
next
  case (again h w h1 w1 d out)
  have "self_pop ser rowid raw (h1\<lparr>put_event := False\<rparr>) (event_wait d w1)
          = (fst out, fst (snd out), snd (snd out))"
    using again.hyps(2) by simp
  from self_pop_frame [OF this] again.IH show ?case
    by (auto simp: event_wait_def)
qed

lemma get_frame:
  assumes "get ser block timeout ident raw h w = Some (res, h', w')"
  shows "set (rows (db w')) \<subseteq> set (rows (db w)) \<and> seq (db w') = seq (db w)"
  using get_popped [OF assms] popped_frame [of ser "rowid_of ident" raw h w]
  by (fastforce simp: delivered_def split: prod.splits)




lemma init_cursor_le_seq:
  assumes "wf_store (db w)" and "\<not> auto_commit h"
  shows "cursor (init h w) \<le> seq (db w)"
proof (cases "sql_select (variant h) None PNone (db w)")
  case None
  with assms show ?thesis by (simp add: init_def wf_store_def)
next
  case (Some q)
  from sql_select_present [OF Some] assms(1) have "col0 q \<le> seq (db w)"
    by (auto simp: wf_store_def)
  with Some assms(2) show ?thesis by (simp add: init_def)
qed

lemma self_pop_cursor_le_seq:
  assumes "wf_store (db w)" and "cursor h \<le> seq (db w)"
    and "self_pop ser rowid raw h w = (r, h', w')"
  shows "cursor h' \<le> seq (db w') \<and> wf_store (db w')"
proof -
  have q: "\<And>wh q. sql_select (variant h) wh rowid (db w) = Some q \<Longrightarrow> col0 q \<le> seq (db w)"
    using sql_select_present assms(1) by (fastforce simp: wf_store_def)
  from self_pop_frame [OF assms(3)] assms(1) have "wf_store (db w')"
    by (auto simp: wf_store_def)
  moreover from assms(2,3) q have "cursor h' \<le> seq (db w)"
    by (auto simp: self_pop_def pop_def mysql_pop_def split: if_splits option.splits)
  ultimately show ?thesis using self_pop_frame [OF assms(3)] by simp
qed

lemma popped_cursor_le_seq:
  assumes "popped ser rowid raw h w out"
    and "wf_store (db w)" and "cursor h \<le> seq (db w)"
  shows "cursor (fst (snd out)) \<le> seq (db (snd (snd out))) \<and> wf_store (db (snd (snd out)))"
  using assms
proof (induction rule: popped.induct)
  case (first h w out)
  have sp: "self_pop ser rowid raw h w = (fst out, fst (snd out), snd (snd out))"
    using first.hyps by simp
  from self_pop_cursor_le_seq [OF first.prems sp] show ?case .
next
  case (again h w h1 w1 d out)
  then have a: "cursor h1 \<le> seq (db w1)" "wf_store (db w1)" by simp_all
  have sp: "self_pop ser rowid raw (h1\<lparr>put_event := False\<rparr>) (event_wait d w1)
          = (fst out, fst (snd out), snd (snd out))"
    using again.hyps(2) by simp
  have "wf_store (db (event_wait d w1))"
    "cursor (h1\<lparr>put_event := False\<rparr>) \<le> seq (db (event_wait d w1))"
    using a by (simp_all add: event_wait_def)
  from self_pop_cursor_le_seq [OF this sp] show ?case .
qed

text \<open>
  The cursor of a handle never passes the largest id the table has assigned: \<^verbatim>\<open>_init\<close>
  and \<^verbatim>\<open>_pop\<close> take it from present rows.
\<close>

lemma get_cursor_le_seq:
  assumes "get ser block timeout ident raw h w = Some (res, h', w')"
    and "wf_store (db w)" and "cursor h \<le> seq (db w)"
  shows "cursor h' \<le> seq (db w') \<and> wf_store (db w')"
proof -
  from get_popped [OF assms(1)] consider
      (rejected) "h' = h" "w' = w"
    | (popped) fin where "popped ser (rowid_of ident) raw h w fin" "delivered fin (res, h', w')"
    by auto
  then show ?thesis
  proof cases
    case rejected
    with assms(2,3) show ?thesis by simp
  next
    case popped
    from popped_cursor_le_seq [OF popped(1) assms(2,3)] popped(2) show ?thesis
      by (auto simp: delivered_def split: prod.splits)
  qed
qed

lemma put_wf_store:
  assumes "wf_store (db w)" and "put ser item h w = (res, h', w')"
  shows "wf_store (db w') \<and> cursor h' = cursor h \<and> seq (db w) \<le> seq (db w')"
  using assms
  by (fastforce simp: wf_store_def put_def sql_insert_into_def row_id_def
           split: if_splits sum.splits prod.splits)

lemma task_done_wf_store:
  assumes "wf_store (db w)"
  shows "wf_store (db (task_done h w)) \<and> seq (db (task_done h w)) = seq (db w)"
  using assms by (auto simp: wf_store_def task_done_def sql_delete_def sql_task_done_def)

section \<open>Deferred-commit get\<close>

lemma pop_result_row3:
  "pop_result ser raw (as_row3 m) =
     Inr (if raw then raw_record (row_id m) (loads ser (row_data m)) (row_ts m)
          else loads ser (row_data m))"
  by (simp add: pop_result_def as_row3_def)

lemma raw_record_not_None: "raw_record i item ts \<noteq> PNone"
  by (simp add: raw_record_def)

text \<open>A get whose first pop has something to deliver returns it, in every blocking mode.\<close>

lemma get_returns_first_pop:
  assumes "self_pop ser (rowid_of ident) raw h w = (Inr v, h', w')" and "v \<noteq> PNone"
    and "\<And>t. block \<Longrightarrow> timeout = Some t \<Longrightarrow> 0 \<le> t"
  shows "get ser block timeout ident raw h w = Some (Inr v, h', w')"
proof (cases block)
  case False
  with assms(1,2) show ?thesis by (simp add: get_def)
next
  case True
  with assms show ?thesis
    by (cases timeout) (auto simp: get_def not_less [symmetric])
qed

lemma self_pop_after_cursor:
  assumes "\<not> auto_commit h" and "variant h \<noteq> MySQLQueue"
    and "first_asc (filter (\<lambda>y. cursor h < row_id y) (rows (db w))) = Some m"
  shows "self_pop ser PNone raw h w =
           (Inr (if raw then raw_record (row_id m) (loads ser (row_data m)) (row_ts m)
                 else loads ser (row_data m)),
            h\<lparr>cursor := row_id m, total := total h - 1\<rparr>, w)"
  using assms by (simp add: self_pop_def pop_def sql_select_def pop_result_row3)

text \<open>
  C1, as the code has it, on the classes whose constructor offers deferred-commit mode
  (\<^verbatim>\<open>SQLiteQueue\<close>, \<^verbatim>\<open>FILOSQLiteQueue\<close>, \<^verbatim>\<open>UniqueQ\<close>; \<^verbatim>\<open>MySQLQueue.__init__\<close> takes no
  \<^verbatim>\<open>auto_commit\<close> and never runs \<^verbatim>\<open>_init\<close>). When a row lies above the cursor, a get
  without explicit id takes the one with the least id; when its payload does not
  deserialize to \<^verbatim>\<open>None\<close>, or the get is raw, the get returns, in every blocking mode,
  with that payload (the raw record in raw mode), the cursor at that row's id and the
  table as it was, the row still in it; \<^verbatim>\<open>task_done\<close> then leaves exactly the rows
  with a greater id.
\<close>

theorem deferred_get_takes_next_row:
  assumes "\<not> auto_commit h" and "variant h \<noteq> MySQLQueue" and "rowid_of ident = PNone"
    and "\<And>t. block \<Longrightarrow> timeout = Some t \<Longrightarrow> 0 \<le> t"
    and "x \<in> set (rows (db w))" and "cursor h < row_id x"
  shows "\<exists>m\<in>set (rows (db w)).
           cursor h < row_id m
         \<and> (\<forall>y\<in>set (rows (db w)). cursor h < row_id y \<longrightarrow> row_id m \<le> row_id y)
         \<and> (raw \<or> loads ser (row_data m) \<noteq> PNone \<longrightarrow>
              get ser block timeout ident raw h w =
                Some (Inr (if raw then raw_record (row_id m) (loads ser (row_data m)) (row_ts m)
                           else loads ser (row_data m)),
                      h\<lparr>cursor := row_id m, total := total h - 1\<rparr>, w))
         \<and> rows (db (task_done (h\<lparr>cursor := row_id m, total := total h - 1\<rparr>) w))
             = filter (\<lambda>y. row_id m < row_id y) (rows (db w))"
proof -
  let ?above = "filter (\<lambda>y. cursor h < row_id y) (rows (db w))"
  from assms(5,6) have "?above \<noteq> []" by (auto simp: filter_empty_conv)
  then obtain m where m: "first_asc ?above = Some m"
    by (auto simp: first_asc_def)
  from first_asc_in [OF m] have in_rows: "m \<in> set (rows (db w))" and ab: "cursor h < row_id m"
    by auto
  have least: "\<forall>y\<in>set (rows (db w)). cursor h < row_id y \<longrightarrow> row_id m \<le> row_id y"
    using first_asc_least [OF m] by auto
  let ?v = "if raw then raw_record (row_id m) (loads ser (row_data m)) (row_ts m)
            else loads ser (row_data m)"
  let ?h' = "h\<lparr>cursor := row_id m, total := total h - 1\<rparr>"
  have sp: "self_pop ser PNone raw h w = (Inr ?v, ?h', w)"
    using self_pop_after_cursor [OF assms(1,2) m] .
  have g: "get ser block timeout ident raw h w = Some (Inr ?v, ?h', w)"
    if "raw \<or> loads ser (row_data m) \<noteq> PNone"
  proof (rule get_returns_first_pop)
    show "self_pop ser (rowid_of ident) raw h w = (Inr ?v, ?h', w)"
      using sp assms(3) by simp
    show "?v \<noteq> PNone" using that by (auto simp: raw_record_not_None)
    show "\<And>t. block \<Longrightarrow> timeout = Some t \<Longrightarrow> 0 \<le> t" by (rule assms(4))
  qed
  have td: "rows (db (task_done ?h' w)) = filter (\<lambda>y. row_id m < row_id y) (rows (db w))"
    using assms(1) by (simp add: task_done_def sql_delete_def sql_task_done_def not_le)
  from in_rows ab least g td show ?thesis by blast
qed

theorem deferred_get_takes_next_row_witness:
  "get plain True None PNone False (fresh SQLiteQueue False\<lparr>cursor := 1, total := 2\<rparr>) table3
     = Some (Inr (PStr ''b''), fresh SQLiteQueue False\<lparr>cursor := 2, total := 1\<rparr>, table3)
   \<and> rows (db (task_done (fresh SQLiteQueue False\<lparr>cursor := 2, total := 1\<rparr>) table3))
       = [(3, PStr ''c'', 6)]"
proof -
  let ?h = "fresh SQLiteQueue False\<lparr>cursor := 1, total := 2\<rparr>"
  have a: "\<not> auto_commit ?h" "variant ?h \<noteq> MySQLQueue" "rowid_of PNone = PNone"
    "(3, PStr ''c'', 6) \<in> set (rows (db table3))" "cursor ?h < row_id (3 :: int, PStr ''c'', 6 :: rat)"
    by (simp_all add: fresh_def rowid_of_def table3_def row_id_def)
  have "\<exists>m\<in>set (rows (db table3)).
           cursor ?h < row_id m
         \<and> (\<forall>y\<in>set (rows (db table3)). cursor ?h < row_id y \<longrightarrow> row_id m \<le> row_id y)
         \<and> (False \<or> loads plain (row_data m) \<noteq> PNone \<longrightarrow>
              get plain True None PNone False ?h table3 =
                Some (Inr (if False then raw_record (row_id m) (loads plain (row_data m)) (row_ts m)
                           else loads plain (row_data m)),
                      ?h\<lparr>cursor := row_id m, total := total ?h - 1\<rparr>, table3))
         \<and> rows (db (task_done (?h\<lparr>cursor := row_id m, total := total ?h - 1\<rparr>) table3))
             = filter (\<lambda>y. row_id m < row_id y) (rows (db table3))"
    by (rule deferred_get_takes_next_row [OF a(1,2,3) _ a(4,5)]) simp
  then obtain m where m: "m \<in> set (rows (db table3))" "cursor ?h < row_id m"
    "\<forall>y\<in>set (rows (db table3)). cursor ?h < row_id y \<longrightarrow> row_id m \<le> row_id y"
    "loads plain (row_data m) \<noteq> PNone \<longrightarrow>
       get plain True None PNone False ?h table3 =
         Some (Inr (loads plain (row_data m)), ?h\<lparr>cursor := row_id m, total := total ?h - 1\<rparr>, table3)"
    "rows (db (task_done (?h\<lparr>cursor := row_id m, total := total ?h - 1\<rparr>) table3))
             = filter (\<lambda>y. row_id m < row_id y) (rows (db table3))"
    by auto
  from m(1,2,3) have "m = (2, PStr ''b'', 6)"
    by (auto simp: table3_def fresh_def row_id_def)
  with m(4,5) show ?thesis
    by (simp add: plain_def row_data_def row_id_def fresh_def table3_def)
qed

text \<open>
  C1 as stated fails for a row whose payload is \<^verbatim>\<open>None\<close>: after \<^verbatim>\<open>put(None)\<close> and
  \<^verbatim>\<open>put("b")\<close> on a handle opened in deferred-commit mode, the non-blocking get moves
  the cursor to row 1 and raises \<^verbatim>\<open>Empty\<close> instead of returning the payload, and the
  blocking get passes over row 1 and returns the payload of row 2.
\<close>

theorem deferred_get_none_payload:
  "put_all plain [PNone, PStr ''b''] (init (fresh SQLiteQueue False) table0) table0
     = (fresh SQLiteQueue False\<lparr>total := 2, put_event := True\<rparr>, tableN)
   \<and> get plain False None PNone False (fresh SQLiteQueue False\<lparr>total := 2, put_event := True\<rparr>) tableN
     = Some (Inl Empty, fresh SQLiteQueue False\<lparr>cursor := 1, total := 1, put_event := True\<rparr>, tableN)
   \<and> get plain True None PNone False (fresh SQLiteQueue False\<lparr>total := 2, put_event := True\<rparr>) tableN
     = Some (Inr (PStr ''b''), fresh SQLiteQueue False\<lparr>cursor := 2, total := 0\<rparr>,
             tableN\<lparr>clock := 17\<rparr>)"
  by (simp add: run_defs tableN_def wait_forever.simps)

section \<open>Opening a handle again\<close>






lemma init_deferred:
  assumes "\<not> auto_commit h0"
  shows "total (init h0 w) = int (length (rows (db w)))
       \<and> variant (init h0 w) = variant h0 \<and> \<not> auto_commit (init h0 w)
       \<and> (rows (db w) = [] \<longrightarrow> cursor (init h0 w) = 0)
       \<and> (rows (db w) \<noteq> [] \<longrightarrow>
            cursor (init h0 w) =
              (if variant h0 = FILOSQLiteQueue then Max (row_id ` set (rows (db w)))
               else Min (row_id ` set (rows (db w)))) - 1)"
proof (cases "rows (db w) = []")
  case True
  with assms show ?thesis
    by (simp add: init_def sql_select_def sql_count_def first_asc_def first_desc_def Let_def)
next
  case False
  then obtain a d where a: "first_asc (rows (db w)) = Some a" and d: "first_desc (rows (db w)) = Some d"
    by (auto simp: first_asc_def first_desc_def)
  from first_asc_id [OF a] first_desc_id [OF d] a d False assms show ?thesis
    by (simp add: init_def sql_select_def sql_count_def Let_def)
qed




text \<open>The hypothesis on the cursor holds right after opening and right after \<^verbatim>\<open>task_done\<close>.\<close>

lemma init_no_pending:
  assumes "\<not> auto_commit h0" and "variant h0 \<noteq> FILOSQLiteQueue"
  shows "\<forall>r\<in>set (rows (db w)). cursor (init h0 w) < row_id r"
proof
  fix r assume r: "r \<in> set (rows (db w))"
  then have "rows (db w) \<noteq> []" by auto
  with init_deferred [OF assms(1), of w] assms(2)
  have "cursor (init h0 w) = Min (row_id ` set (rows (db w))) - 1" by auto
  moreover have "Min (row_id ` set (rows (db w))) \<le> row_id r"
    using r by (intro Min_le) auto
  ultimately show "cursor (init h0 w) < row_id r" by simp
qed

lemma task_done_no_pending:
  assumes "\<not> auto_commit h"
  shows "\<forall>r\<in>set (rows (db (task_done h w))). cursor h < row_id r"
  using assms by (auto simp: task_done_def sql_delete_def sql_task_done_def)

section \<open>Acknowledging with task done\<close>

lemma pop_result_raw:
  "pop_result ser True q = Inr v \<Longrightarrow> \<exists>item ts. v = raw_record (col0 q) item ts"
  by (auto simp: pop_result_def Let_def split: sum.splits)

lemma self_pop_raw:
  assumes "self_pop ser rowid True h w = (Inr v, h', w')"
  shows "v = PNone \<or> (\<exists>j item ts. v = raw_record j item ts \<and> j \<in> row_id ` set (rows (db w)))"
proof (cases "v = PNone")
  case True
  then show ?thesis by simp
next
  case False
  with assms obtain wh q where q: "sql_select (variant h) wh rowid (db w) = Some q"
    and r: "pop_result ser True q = Inr v"
    by (auto simp: self_pop_def pop_def mysql_pop_def split: if_splits option.splits)
  from pop_result_raw [OF r] sql_select_present [OF q] show ?thesis by blast
qed

lemma popped_raw:
  assumes "popped ser rowid True h w (Inr v, h', w')"
  shows "v = PNone \<or> (\<exists>j item ts. v = raw_record j item ts \<and> j \<in> row_id ` set (rows (db w)))"
  using assms
proof (cases rule: popped.cases)
  case first
  then show ?thesis by (rule self_pop_raw)
next
  case (again h1 w1 d)
  from popped_frame [OF again(1)] have "set (rows (db w1)) \<subseteq> set (rows (db w))" by simp
  with self_pop_raw [OF again(2)] show ?thesis by (auto simp: event_wait_def)
qed

lemma get_raw_present:
  assumes "get ser block timeout ident True h w = Some (Inr v, h', w')"
  shows "\<exists>j item ts. v = raw_record j item ts \<and> j \<in> row_id ` set (rows (db w))"
proof -
  from get_popped [OF assms] obtain fin where p: "popped ser (rowid_of ident) True h w fin"
    and d: "delivered fin (Inr v, h', w')" by auto
  from d have "fin = (Inr v, h', w')" "v \<noteq> PNone"
    by (auto simp: delivered_def split: prod.splits)
  with p popped_raw [of ser "rowid_of ident" h w v h' w'] show ?thesis by simp
qed

lemma above_put:
  assumes "above c (db w)" and "put ser item h w = (res, h', w')"
  shows "above c (db w')"
  using assms
  by (auto simp: above_def put_def sql_insert_into_def row_id_def
           split: if_splits sum.splits prod.splits)

lemma sql_update_keys:
  "sql_update v key obj st = Inr st' \<Longrightarrow>
     map row_id (rows st') = map row_id (rows st) \<and> seq st' = seq st"
  by (auto simp: sql_update_def row_id_def split: if_splits)

lemma above_keys:
  "above c st \<longleftrightarrow> (\<forall>i\<in>set (map row_id (rows st)). c < i) \<and> c \<le> seq st"
  by (auto simp: above_def)

lemma above_update:
  assumes "above c (db w)" and "update ser item ident h w = (res, h', w')"
  shows "above c (db w')"
proof (cases "db w' = db w")
  case True
  with assms(1) show ?thesis by simp
next
  case False
  with assms(2) obtain key obj where "sql_update (variant h) key obj (db w) = Inr (db w')"
    by (auto simp: update_def Let_def split: if_splits sum.splits prod.splits option.splits)
  from sql_update_keys [OF this] assms(1) show ?thesis
    unfolding above_keys by simp
qed

lemma above_task_done:
  assumes "above c (db w)"
  shows "above c (db (task_done h w))"
  using assms by (auto simp: above_def task_done_def sql_delete_def sql_task_done_def)

lemma above_get:
  assumes "above c (db w)" and "get ser block timeout ident raw h w = Some (res, h', w')"
  shows "above c (db w')"
  using assms(1) get_frame [OF assms(2)] by (auto simp: above_def)

lemma above_do_call:
  assumes "above c (db w)" and "do_call ser cl h w = Some (res, h', w')"
  shows "above c (db w')"
  using assms
  by (cases cl) (auto simp: do_call_def dest: above_put above_update above_get above_task_done)

lemma above_run:
  assumes "run ser cs w = Some w1" and "above c (db w)"
  shows "above c (db w1)"
  using assms
proof (induction cs arbitrary: w)
  case Nil
  then show ?case by simp
next
  case (Cons a cs)
  obtain h cl where a: "a = (h, cl)" by (cases a)
  from Cons.prems(1) a obtain res h' w' where
    d: "do_call ser cl h w = Some (res, h', w')" and r: "run ser cs w' = Some w1"
    by (auto split: option.splits)
  from Cons.IH [OF r above_do_call [OF Cons.prems(2) d]] show ?case .
qed

lemma above_after_task_done:
  assumes "\<not> auto_commit h" and "cursor h \<le> seq (db w)"
  shows "above (cursor h) (db (task_done h w))"
  using assms by (auto simp: above_def task_done_def sql_delete_def sql_task_done_def)

text \<open>
  C3. In auto-commit mode \<^verbatim>\<open>task_done\<close> changes nothing. In deferred-commit mode it
  leaves exactly the rows with id above the cursor, in their order. After it, whatever
  calls are made through whatever handles, every present row has an id above that cursor;
  so every select on the table, which is where each get takes its record from, yields an
  id above it, and so does every raw record a get returns. The cursor is taken not to
  exceed the largest id assigned, which \<open>init_cursor_le_seq\<close> and \<open>get_cursor_le_seq\<close>
  maintain.
\<close>

theorem task_done_commits:
  assumes "cursor h \<le> seq (db w)"
    and "run ser cs (task_done h w) = Some w1"
  shows "(auto_commit h \<longrightarrow> task_done h w = w)
       \<and> (\<not> auto_commit h \<longrightarrow>
            rows (db (task_done h w)) = filter (\<lambda>r. cursor h < row_id r) (rows (db w))
          \<and> (\<forall>r\<in>set (rows (db w1)). cursor h < row_id r)
          \<and> (\<forall>v' wh rowid q. sql_select v' wh rowid (db w1) = Some q \<longrightarrow> cursor h < col0 q)
          \<and> (\<forall>block timeout ident hx v hx' w2.
                get ser block timeout ident True hx w1 = Some (Inr v, hx', w2)
                \<longrightarrow> (\<exists>j item ts. v = raw_record j item ts \<and> cursor h < j)))"
proof (intro conjI impI)
  show "task_done h w = w" if "auto_commit h"
    using that by (simp add: task_done_def)
next
  assume d: "\<not> auto_commit h"
  show "rows (db (task_done h w)) = filter (\<lambda>r. cursor h < row_id r) (rows (db w))"
    using d by (simp add: task_done_def sql_delete_def sql_task_done_def not_le)
  have ab: "above (cursor h) (db w1)"
    using above_run [OF assms(2) above_after_task_done [OF d assms(1)]] .
  then show "\<forall>r\<in>set (rows (db w1)). cursor h < row_id r"
    by (simp add: above_def)
  show "\<forall>v' wh rowid q. sql_select v' wh rowid (db w1) = Some q \<longrightarrow> cursor h < col0 q"
    using ab sql_select_present by (fastforce simp: above_def)
  show "\<forall>block timeout ident hx v hx' w2.
          get ser block timeout ident True hx w1 = Some (Inr v, hx', w2)
          \<longrightarrow> (\<exists>j item ts. v = raw_record j item ts \<and> cursor h < j)"
    using ab get_raw_present by (fastforce simp: above_def)
qed

theorem task_done_commits_witness:
  "rows (db (task_done (fresh SQLiteQueue False\<lparr>cursor := 1\<rparr>) table2)) = [(2, PStr ''b'', 6)]
   \<and> run plain [(fresh SQLiteQueue True, Put (PStr ''c'')), (fresh FILOSQLiteQueue False, Open)]
        (task_done (fresh SQLiteQueue False\<lparr>cursor := 1\<rparr>) table2)
       = Some (table2\<lparr>db := \<lparr>rows = [(2, PStr ''b'', 6), (3, PStr ''c'', 7)], seq = 3\<rparr>\<rparr>)
   \<and> (\<exists>j item ts hx w2.
         get plain False None (PInt 2) True (fresh SQLiteQueue True)
            (table2\<lparr>db := \<lparr>rows = [(2, PStr ''b'', 6), (3, PStr ''c'', 7)], seq = 3\<rparr>\<rparr>)
           = Some (Inr (raw_record j item ts), hx, w2) \<and> 1 < j)"
proof -
  let ?h = "fresh SQLiteQueue False\<lparr>cursor := 1\<rparr>"
  let ?cs = "[(fresh SQLiteQueue True, Put (PStr ''c'')), (fresh FILOSQLiteQueue False, Open)]"
  let ?w1 = "table2\<lparr>db := \<lparr>rows = [(2, PStr ''b'', 6), (3, PStr ''c'', 7)], seq = 3\<rparr>\<rparr>"
  have c: "cursor ?h \<le> seq (db table2)" by (simp add: fresh_def table2_def)
  have r: "run plain ?cs (task_done ?h table2) = Some ?w1"
    by (simp add: run_defs do_call_def)
  have d: "\<not> auto_commit ?h" and cu: "cursor ?h = 1" by (simp_all add: fresh_def)
  have g: "get plain False None (PInt 2) True (fresh SQLiteQueue True) ?w1
        = Some (Inr (raw_record 2 (PStr ''b'') 6), fresh SQLiteQueue True\<lparr>total := - 1\<rparr>,
                table2\<lparr>db := \<lparr>rows = [(3, PStr ''c'', 7)], seq = 3\<rparr>\<rparr>)"
    by (simp add: run_defs)
  note T = task_done_commits [OF c r]
  from T d have rows: "rows (db (task_done ?h table2)) = filter (\<lambda>r. cursor ?h < row_id r) (rows (db table2))"
    by blast
  from T d g have "\<exists>j item ts. raw_record 2 (PStr ''b'') 6 = raw_record j item ts \<and> cursor ?h < j"
    by blast
  with g cu have "\<exists>j item ts hx w2.
         get plain False None (PInt 2) True (fresh SQLiteQueue True) ?w1
           = Some (Inr (raw_record j item ts), hx, w2) \<and> 1 < j"
    by auto
  moreover from rows have "rows (db (task_done ?h table2)) = [(2, PStr ''b'', 6)]"
    by (simp add: fresh_def table2_def row_id_def)
  ultimately show ?thesis using r by blast
qed

section \<open>Unique puts\<close>

text \<open>
  C4. On a \<^verbatim>\<open>UniqueQ\<close> handle, a put whose encoded payload is among the present rows
  returns \<^verbatim>\<open>None\<close> with handle and table unchanged (no count, no wake signal, no
  exception); otherwise it appends the row under the next id, increments \<^verbatim>\<open>total\<close>,
  sets the wake signal and returns the id, which is what \<^verbatim>\<open>SQLiteQueue.put\<close> does with
  the same encoder.
\<close>

theorem unique_put:
  assumes "variant h = UniqueQ"
  shows "(dumps_sorted ser item \<in> row_data ` set (rows (db w)) \<longrightarrow>
            put ser item h w = (Inr PNone, h, w))
       \<and> (dumps_sorted ser item \<notin> row_data ` set (rows (db w)) \<longrightarrow>
            put ser item h w =
              (Inr (PInt (seq (db w) + 1)),
               h\<lparr>total := total h + 1, put_event := True\<rparr>,
               w\<lparr>db := (db w)\<lparr>rows := rows (db w) @ [(seq (db w) + 1, dumps_sorted ser item, clock w)],
                               seq := seq (db w) + 1\<rparr>\<rparr>)
          \<and> put ser item h w =
              (case put (ser\<lparr>dumps := dumps_sorted ser\<rparr>) item (h\<lparr>variant := SQLiteQueue\<rparr>) w of
                 (res, h', w') \<Rightarrow> (res, h'\<lparr>variant := UniqueQ\<rparr>, w')))"
  using assms by (simp add: put_def sql_insert_into_def)

theorem unique_put_witness:
  "put plain (PStr ''a'') (fresh UniqueQ True\<lparr>total := 1\<rparr>) table1
     = (Inr PNone, fresh UniqueQ True\<lparr>total := 1\<rparr>, table1)
   \<and> put plain (PStr ''b'') (fresh UniqueQ True\<lparr>total := 1\<rparr>) table1
     = (Inr (PInt 2), fresh UniqueQ True\<lparr>total := 2, put_event := True\<rparr>,
        table1\<lparr>db := \<lparr>rows = [(1, PStr ''a'', 5), (2, PStr ''b'', 7)], seq = 2\<rparr>\<rparr>)"
proof -
  have v: "variant (fresh UniqueQ True\<lparr>total := 1\<rparr>) = UniqueQ" by (simp add: fresh_def)
  show ?thesis
    using unique_put [OF v, of plain "PStr ''a''" table1] unique_put [OF v, of plain "PStr ''b''" table1]
    by (simp add: plain_def table1_def fresh_def row_data_def)
qed

section \<open>First in, first out\<close>

lemma queued_ids: "r \<in> set (queued ser s ts xs) \<Longrightarrow> s < row_id r"
proof (induction xs arbitrary: s)
  case Nil
  then show ?case by simp
next
  case (Cons x xs)
  from Cons.prems have "r = (s + 1, dumps ser x, ts) \<or> r \<in> set (queued ser (s + 1) ts xs)"
    by simp
  then show ?case
  proof
    assume "r = (s + 1, dumps ser x, ts)"
    then show ?thesis by (simp add: row_id_def)
  next
    assume "r \<in> set (queued ser (s + 1) ts xs)"
    from Cons.IH [OF this] show ?thesis by simp
  qed
qed

lemma put_fifo:
  assumes "variant h = SQLiteQueue"
  shows "put ser x h w =
           (Inr (PInt (seq (db w) + 1)), h\<lparr>total := total h + 1, put_event := True\<rparr>,
            w\<lparr>db := (db w)\<lparr>rows := rows (db w) @ [(seq (db w) + 1, dumps ser x, clock w)],
                            seq := seq (db w) + 1\<rparr>\<rparr>)"
  using assms by (simp add: put_def sql_insert_into_def)

lemma put_all_fifo:
  assumes "variant h = SQLiteQueue" and "put_all ser items h w = (h', w')"
  shows "rows (db w') = rows (db w) @ queued ser (seq (db w)) (clock w) items
       \<and> total h' = total h + int (length items)
       \<and> variant h' = SQLiteQueue \<and> auto_commit h' = auto_commit h"
  using assms
proof (induction items arbitrary: h w)
  case Nil
  then show ?case by simp
next
  case (Cons x xs)
  let ?h1 = "h\<lparr>total := total h + 1, put_event := True\<rparr>"
  let ?w1 = "w\<lparr>db := (db w)\<lparr>rows := rows (db w) @ [(seq (db w) + 1, dumps ser x, clock w)],
                            seq := seq (db w) + 1\<rparr>\<rparr>"
  from Cons.prems have "put_all ser xs ?h1 ?w1 = (h', w')"
    by (simp add: put_fifo)
  from Cons.IH [OF _ this] Cons.prems(1) show ?case by simp
qed

lemma get_fifo_head:
  assumes "variant h = SQLiteQueue" and "auto_commit h"
    and "rows (db w) = r # rs" and "\<forall>x\<in>set rs. row_id r < row_id x"
    and "loads ser (row_data r) \<noteq> PNone"
    and "\<And>t. block \<Longrightarrow> timeout = Some t \<Longrightarrow> 0 \<le> t"
  shows "get ser block timeout PNone False h w =
           Some (Inr (loads ser (row_data r)), h\<lparr>total := total h - 1\<rparr>,
                 w\<lparr>db := (db w)\<lparr>rows := rs\<rparr>\<rparr>)"
proof -
  have sel: "sql_select (variant h) None PNone (db w) = Some (as_row3 r)"
    using assms(1,3) first_asc_Cons_least [OF assms(4)] by (simp add: sql_select_def)
  have del: "filter (\<lambda>x. row_id x \<noteq> row_id r) (r # rs) = rs"
    using assms(4) by (auto simp: filter_id_conv)
  have sp: "self_pop ser PNone False h w =
          (Inr (loads ser (row_data r)), h\<lparr>total := total h - 1\<rparr>, w\<lparr>db := (db w)\<lparr>rows := rs\<rparr>\<rparr>)"
    using assms(1,2,3) sel del
    by (simp add: self_pop_def pop_def pop_result_def sql_delete_def as_row3_def)
  show ?thesis
  proof (cases block)
    case False
    with sp assms(5) show ?thesis by (simp add: get_def rowid_of_def)
  next
    case True
    with sp assms(5) assms(6) show ?thesis
      by (cases timeout) (auto simp: get_def rowid_of_def not_less [symmetric])
  qed
qed

lemma get_all_queued:
  assumes "variant h = SQLiteQueue" and "auto_commit h"
    and "rows (db w) = queued ser s ts items"
    and "PNone \<notin> set items" and "\<forall>x. loads ser (dumps ser x) = x"
    and ok: "\<And>t. block \<Longrightarrow> timeout = Some t \<Longrightarrow> 0 \<le> t"
  shows "\<exists>h' w'. get_all ser block timeout (length items) h w = Some (map Inr items, h', w')
           \<and> total h' = total h - int (length items) \<and> rows (db w') = []"
  using assms(1-4)
proof (induction items arbitrary: h w s)
  case Nil
  then show ?case by simp
next
  case (Cons x xs)
  let ?r = "(s + 1, dumps ser x, ts)"
  let ?h1 = "h\<lparr>total := total h - 1\<rparr>"
  let ?w1 = "w\<lparr>db := (db w)\<lparr>rows := queued ser (s + 1) ts xs\<rparr>\<rparr>"
  have rows: "rows (db w) = ?r # queued ser (s + 1) ts xs"
    using Cons.prems(3) by simp
  have least: "\<forall>y\<in>set (queued ser (s + 1) ts xs). row_id ?r < row_id y"
    using queued_ids [of _ ser "s + 1" ts xs] by (auto simp: row_id_def)
  have nn: "loads ser (row_data ?r) \<noteq> PNone"
    using Cons.prems(4) assms(5) by (auto simp: row_data_def)
  have g: "get ser block timeout PNone False h w = Some (Inr x, ?h1, ?w1)"
    using get_fifo_head [OF Cons.prems(1,2) rows least nn ok] assms(5)
    by (simp add: row_data_def)
  have "\<exists>h' w'. get_all ser block timeout (length xs) ?h1 ?w1 = Some (map Inr xs, h', w')
           \<and> total h' = total ?h1 - int (length xs) \<and> rows (db w') = []"
    using Cons.prems by (intro Cons.IH [of ?h1 ?w1 "s + 1"]) simp_all
  then obtain h' w' where "get_all ser block timeout (length xs) ?h1 ?w1 = Some (map Inr xs, h', w')"
    "total h' = total ?h1 - int (length xs)" "rows (db w') = []" by blast
  with g show ?case by simp
qed

text \<open>
  C5, as the code has it: on a \<^verbatim>\<open>SQLiteQueue\<close> handle with auto-commit opened on an empty
  table, with a serializer that decodes what it encodes, puts of items none of which is
  \<^verbatim>\<open>None\<close> followed by as many gets (non-blocking, or blocking with no timeout or a
  non-negative one) return the items in the order they were put, and leave the size 0
  and the table empty.
\<close>

theorem fifo_order:
  assumes "variant h0 = SQLiteQueue" and "auto_commit h0" and "rows (db w0) = []"
    and "\<forall>x. loads ser (dumps ser x) = x" and "PNone \<notin> set items"
    and "\<And>t. block \<Longrightarrow> timeout = Some t \<Longrightarrow> 0 \<le> t"
    and "put_all ser items (init h0 w0) w0 = (hp, wp)"
  shows "\<exists>h' w'. get_all ser block timeout (length items) hp wp = Some (map Inr items, h', w')
           \<and> size_q h' = 0 \<and> qsize h' = 0 \<and> empty_q h' \<and> rows (db w') = []"
proof -
  have i: "variant (init h0 w0) = SQLiteQueue" "auto_commit (init h0 w0)" "total (init h0 w0) = 0"
    using assms(1,2,3) by (simp_all add: init_def sql_count_def)
  from put_all_fifo [OF i(1) assms(7)] i assms(3)
  have p: "rows (db wp) = queued ser (seq (db w0)) (clock w0) items"
    "total hp = int (length items)" "variant hp = SQLiteQueue" "auto_commit hp"
    by simp_all
  have "\<exists>h' w'. get_all ser block timeout (length items) hp wp = Some (map Inr items, h', w')
           \<and> total h' = total hp - int (length items) \<and> rows (db w') = []"
    using p(3,4,1) assms(5,4) by (rule get_all_queued) (rule assms(6))
  with p(2) show ?thesis by (auto simp: size_q_def qsize_def empty_q_def)
qed

theorem fifo_order_witness:
  "\<exists>h' w'. get_all plain True None 3
       (fst (put_all plain [PStr ''a'', PInt 1, PStr ''a''] (init (fresh SQLiteQueue True) table0) table0))
       (snd (put_all plain [PStr ''a'', PInt 1, PStr ''a''] (init (fresh SQLiteQueue True) table0) table0))
     = Some ([Inr (PStr ''a''), Inr (PInt 1), Inr (PStr ''a'')], h', w') \<and> size_q h' = 0"
proof -
  let ?items = "[PStr ''a'', PInt 1, PStr ''a'']"
  let ?p = "put_all plain ?items (init (fresh SQLiteQueue True) table0) table0"
  have L: "length ?items = 3" and M: "map Inr ?items = [Inr (PStr ''a''), Inr (PInt 1), Inr (PStr ''a'')]"
    by simp_all
  have "\<exists>h' w'. get_all plain True None (length ?items) (fst ?p) (snd ?p) = Some (map Inr ?items, h', w')
           \<and> size_q h' = 0 \<and> qsize h' = 0 \<and> empty_q h' \<and> rows (db w') = []"
    by (rule fifo_order [of "fresh SQLiteQueue True" table0 plain ?items True None])
       (simp_all add: fresh_def table0_def plain_def)
  then show ?thesis unfolding L M by blast
qed

text \<open>On an empty table the loop without a deadline never returns.\<close>

lemma wait_forever_empty_table:
  assumes run: "wait_forever ser rowid raw h w = Some out"
  shows "rows (db w) \<noteq> []"
proof -
  let ?P = "\<lambda>(s :: 'a serializer) (ri :: pyval) (rw :: bool) (h :: handle) (w :: 'a world) (out :: 'a outcome).
              rows (db w) \<noteq> []"
  show ?thesis
  proof (rule wait_forever.raw_induct [where P = ?P, OF _ run])
    fix wf s ri rw h1 and w1 :: "'a world" and out
    assume IH: "\<And>s ri rw h1 w1 out. wf s ri rw h1 w1 = Some out \<Longrightarrow> rows (db w1) \<noteq> []"
      and body: "(case self_pop s ri rw (h1\<lparr>put_event := False\<rparr>) (event_wait TICK_FOR_WAIT w1) of
                    (Inl e, h', w') \<Rightarrow> Some (Inl e, h', w')
                  | (Inr v, h', w') \<Rightarrow>
                      if v = PNone then wf s ri rw h' w' else Some (Inr v, h', w')) = Some out"
    show "rows (db w1) \<noteq> []"
    proof
      assume e: "rows (db w1) = []"
      then have "self_pop s ri rw (h1\<lparr>put_event := False\<rparr>) (event_wait TICK_FOR_WAIT w1)
          = (Inr PNone, h1\<lparr>put_event := False\<rparr>, event_wait TICK_FOR_WAIT w1)"
        by (simp add: self_pop_def pop_def mysql_pop_def sql_select_def first_asc_def first_desc_def
              event_wait_def)
      with body have "wf s ri rw (h1\<lparr>put_event := False\<rparr>) (event_wait TICK_FOR_WAIT w1) = Some out"
        by simp
      from IH [OF this] e show False by (simp add: event_wait_def)
    qed
  qed
qed

text \<open>
  C5 as stated fails for the item \<^verbatim>\<open>None\<close>: after \<^verbatim>\<open>put(None)\<close> the non-blocking get
  deletes the row and raises \<^verbatim>\<open>Empty\<close>, and the blocking get deletes the row and never
  returns, since \<^verbatim>\<open>get\<close> reads the \<^verbatim>\<open>None\<close> that \<^verbatim>\<open>_pop\<close> returns as "no row".
\<close>

theorem none_item_not_returned:
  "put_all plain [PNone] (init (fresh SQLiteQueue True) table0) table0
     = (fresh SQLiteQueue True\<lparr>total := 1, put_event := True\<rparr>,
        table0\<lparr>db := \<lparr>rows = [(1, PNone, 7)], seq = 1\<rparr>\<rparr>)
   \<and> get_all plain False None 1 (fresh SQLiteQueue True\<lparr>total := 1, put_event := True\<rparr>)
        (table0\<lparr>db := \<lparr>rows = [(1, PNone, 7)], seq = 1\<rparr>\<rparr>)
     = Some ([Inl Empty], fresh SQLiteQueue True\<lparr>total := 0, put_event := True\<rparr>,
             table0\<lparr>db := \<lparr>rows = [], seq = 1\<rparr>\<rparr>)
   \<and> get_all plain True None 1 (fresh SQLiteQueue True\<lparr>total := 1, put_event := True\<rparr>)
        (table0\<lparr>db := \<lparr>rows = [(1, PNone, 7)], seq = 1\<rparr>\<rparr>) = None"
proof -
  have "wait_forever plain PNone False (fresh SQLiteQueue True\<lparr>total := 0, put_event := True\<rparr>)
          (table0\<lparr>db := \<lparr>rows = [], seq = 1\<rparr>\<rparr>) = None"
    using wait_forever_empty_table [of plain PNone False
        "fresh SQLiteQueue True\<lparr>total := 0, put_event := True\<rparr>" "table0\<lparr>db := \<lparr>rows = [], seq = 1\<rparr>\<rparr>"]
    by (cases "wait_forever plain PNone False (fresh SQLiteQueue True\<lparr>total := 0, put_event := True\<rparr>)
          (table0\<lparr>db := \<lparr>rows = [], seq = 1\<rparr>\<rparr>)") (simp_all add: table0_def)
  then show ?thesis
    by (simp add: run_defs)
qed

section \<open>Arguments of get and update\<close>

text \<open>
  C6, as the code has it. With \<^verbatim>\<open>block\<close> true, a negative timeout raises ValueError
  before any row is read: handle and table are unchanged. With \<^verbatim>\<open>block\<close> false the
  timeout is never looked at: the call is the non-blocking get without a timeout.
\<close>

theorem get_negative_timeout:
  "t < 0 \<Longrightarrow> get ser True (Some t) ident raw h w = Some (Inl ValueError, h, w)
     \<and> get ser False (Some t) ident raw h w = get ser False None ident raw h w"
  by (simp add: get_def)

theorem get_negative_timeout_witness:
  "get plain True (Some (- 1)) PNone False (init (fresh SQLiteQueue True) table1) table1
     = Some (Inl ValueError, init (fresh SQLiteQueue True) table1, table1)"
  using get_negative_timeout [of "- 1" plain PNone False "init (fresh SQLiteQueue True) table1" table1]
  by simp

text \<open>
  C6 as stated fails for \<^verbatim>\<open>block=False\<close>: \<^verbatim>\<open>get(block=False, timeout=-1)\<close> on a table
  with one row returns the item and deletes the row.
\<close>

theorem get_negative_timeout_nonblocking:
  "get plain False (Some (- 1)) PNone False (init (fresh SQLiteQueue True) table1) table1
     = Some (Inr (PStr ''a''), fresh SQLiteQueue True\<lparr>total := 0\<rparr>,
             table1\<lparr>db := \<lparr>rows = [], seq = 1\<rparr>\<rparr>)"
  by (simp add: run_defs)

text \<open>
  C7, at an item that is not a raw record, with no explicit id: \<^verbatim>\<open>update("x")\<close> reads
  the local \<^verbatim>\<open>_id\<close> before anything bound it, and the exception is UnboundLocalError,
  not the ValueError of the \<^verbatim>\<open>raise\<close> two lines below.
\<close>

theorem update_without_id_unbound:
  "update ser (PStr s) PNone h w = (Inl UnboundLocalError, h, w)"
  by (simp add: update_def)

text \<open>
  The \<^verbatim>\<open>raise ValueError\<close> is reached only by a raw record whose \<^verbatim>\<open>pqid\<close> is \<^verbatim>\<open>None\<close>;
  with an explicit id the payload of that row is overwritten in place and the id returned.
\<close>

lemma update_raw_record_without_id:
  "update ser (PDict [(''pqid'', PNone), (''data'', x)]) PNone h w = (Inl ValueError, h, w)"
  by (simp add: update_def)

lemma update_with_id:
  assumes "ident \<noteq> PNone" and "variant h \<noteq> UniqueQ"
  shows "update ser item ident h w =
           (Inr ident, h,
            w\<lparr>db := (db w)\<lparr>rows :=
                 map (\<lambda>r. if PInt (row_id r) = ident
                          then (row_id r,
                                dumps ser (if has_pqid item then dict_get item ''data'' else item),
                                row_ts r)
                          else r) (rows (db w))\<rparr>\<rparr>)"
  using assms by (simp add: update_def sql_update_def)

section \<open>Raw records\<close>

text \<open>
  C8, on \<^verbatim>\<open>FILOSQLiteQueue\<close> in auto-commit mode: the head select produces two columns,
  and \<^verbatim>\<open>get(raw=True)\<close> on a table with two rows deletes row 2, decrements \<^verbatim>\<open>total\<close>
  and then raises IndexError at \<^verbatim>\<open>row[2]\<close>.
\<close>

theorem filo_raw_get_index_error:
  "get plain True None PNone True (init (fresh FILOSQLiteQueue True) table2) table2
     = Some (Inl IndexError, fresh FILOSQLiteQueue True\<lparr>total := 1\<rparr>,
             table2\<lparr>db := \<lparr>rows = [(1, PStr ''a'', 5)], seq = 2\<rparr>\<rparr>)"
  by (simp add: run_defs)

text \<open>
  Every other select of the module produces the timestamp column: the head select of
  \<^verbatim>\<open>FILOSQLiteQueue\<close> is the only one whose row \<^verbatim>\<open>row[2]\<close> cannot be read from.
\<close>

lemma sql_select_three_columns:
  assumes "sql_select v wh rowid st = Some q"
    and "v \<noteq> FILOSQLiteQueue \<or> wh \<noteq> None \<or> rowid \<noteq> PNone"
  shows "\<exists>i d t. q = Row3 i d t \<and> col2 q = Inr t"
  using assms
  by (auto simp: sql_select_def as_row3_def split: if_splits option.splits)

text \<open>
  So it is for every non-empty table: in auto-commit mode the raw get of
  \<^verbatim>\<open>FILOSQLiteQueue\<close> without explicit id raises IndexError.
\<close>

lemma filo_raw_get_fails:
  assumes "variant h = FILOSQLiteQueue" and "auto_commit h" and "rows (db w) \<noteq> []"
    and "rowid_of ident = PNone"
    and "\<And>t. block \<Longrightarrow> timeout = Some t \<Longrightarrow> 0 \<le> t"
  shows "\<exists>h' w'. get ser block timeout ident True h w = Some (Inl IndexError, h', w')"
proof -
  from assms(3) obtain r where r: "first_desc (rows (db w)) = Some r"
    by (auto simp: first_desc_def)
  have sp: "self_pop ser PNone True h w =
       (Inl IndexError, h\<lparr>total := total h - 1\<rparr>, w\<lparr>db := sql_delete (row_id r) OpEq (db w)\<rparr>)"
    using assms(1,2) r
    by (simp add: self_pop_def pop_def sql_select_def pop_result_def as_row2_def)
  show ?thesis
  proof (cases block)
    case False
    with sp assms(4) show ?thesis by (simp add: get_def)
  next
    case True
    with sp assms(4,5) show ?thesis
      by (cases timeout) (auto simp: get_def not_less [symmetric])
  qed
qed

section \<open>Size\<close>

text \<open>
  C9, as the code has it: \<^verbatim>\<open>qsize\<close> is the clamp \<open>max 0 total\<close> for every \<^verbatim>\<open>total\<close>;
  for a non-negative \<^verbatim>\<open>total\<close>, \<^verbatim>\<open>size\<close> is that clamp too and \<^verbatim>\<open>empty\<close> holds
  exactly when the clamp is 0.
\<close>

theorem size_qsize_empty:
  "qsize h = max 0 (total h)
   \<and> (0 \<le> total h \<longrightarrow> size_q h = max 0 (total h) \<and> (empty_q h \<longleftrightarrow> max 0 (total h) = 0))"
  by (auto simp: qsize_def size_q_def empty_q_def)

theorem size_qsize_empty_witness:
  "qsize (fresh SQLiteQueue True\<lparr>total := 3\<rparr>) = 3
   \<and> size_q (fresh SQLiteQueue True\<lparr>total := 3\<rparr>) = 3
   \<and> \<not> empty_q (fresh SQLiteQueue True\<lparr>total := 3\<rparr>)"
  using size_qsize_empty [of "fresh SQLiteQueue True\<lparr>total := 3\<rparr>"] by (simp add: fresh_def)

text \<open>
  C9 as stated fails at \<^verbatim>\<open>total = -1\<close>: \<^verbatim>\<open>size\<close> is \<open>-1\<close>, not the clamp 0, and
  \<^verbatim>\<open>empty\<close> is false although the clamped size is 0.
\<close>

theorem size_not_clamped:
  "size_q (fresh SQLiteQueue False\<lparr>total := - 1\<rparr>) = - 1
   \<and> max 0 (total (fresh SQLiteQueue False\<lparr>total := - 1\<rparr>)) = 0
   \<and> \<not> empty_q (fresh SQLiteQueue False\<lparr>total := - 1\<rparr>)"
  by (simp add: size_q_def empty_q_def fresh_def)

text \<open>
  A negative \<^verbatim>\<open>total\<close> is reached by the code with two handles on one table: both are
  opened on the empty table, one puts an item, the other gets it.
\<close>

lemma negative_total_reached:
  "put plain (PStr ''a'') (init (fresh SQLiteQueue True) table0) table0
     = (Inr (PInt 1), fresh SQLiteQueue True\<lparr>total := 1, put_event := True\<rparr>,
        table0\<lparr>db := \<lparr>rows = [(1, PStr ''a'', 7)], seq = 1\<rparr>\<rparr>)
   \<and> get plain False None PNone False (init (fresh SQLiteQueue True) table0)
        (table0\<lparr>db := \<lparr>rows = [(1, PStr ''a'', 7)], seq = 1\<rparr>\<rparr>)
     = Some (Inr (PStr ''a''), fresh SQLiteQueue True\<lparr>total := - 1\<rparr>,
             table0\<lparr>db := \<lparr>rows = [], seq = 1\<rparr>\<rparr>)"
  by (simp add: run_defs)

text \<open>There \<^verbatim>\<open>len(q)\<close> raises.\<close>

lemma len_negative_total:
  "len (fresh SQLiteQueue True\<lparr>total := - 1\<rparr>) = Inl ValueError"
  by (simp add: len_def size_q_def fresh_def)

section \<open>Getting by explicit id in deferred-commit mode\<close>

lemma self_pop_by_id_exact:
  assumes "\<not> auto_commit h" and "variant h \<noteq> MySQLQueue"
    and "first_asc (filter (\<lambda>y. row_id y = i) (rows (db w))) = Some m"
  shows "self_pop ser (PInt i) raw h w =
           (Inr (if raw then raw_record i (loads ser (row_data m)) (row_ts m)
                 else loads ser (row_data m)),
            h\<lparr>cursor := i, total := total h - 1\<rparr>, w)"
proof -
  from first_asc_in [OF assms(3)] have "row_id m = i" by simp
  with assms show ?thesis
    by (simp add: self_pop_def pop_def sql_select_def pop_result_row3)
qed

text \<open>
  With a deadline, the loop on a row whose payload is \<^verbatim>\<open>None\<close> ends: each round uses up
  a tick of what remains, and the pop changes nothing but the counter.
\<close>

lemma wait_until_by_id_none:
  assumes "first_asc (filter (\<lambda>y. row_id y = i) (rows D)) = Some m"
    and "loads ser (row_data m) = PNone"
  shows "e - clock w \<le> TICK_FOR_WAIT * of_nat k \<Longrightarrow> \<not> auto_commit h \<Longrightarrow>
         variant h \<noteq> MySQLQueue \<Longrightarrow> db w = D \<Longrightarrow> cursor h = i \<Longrightarrow>
         \<exists>h' w'. wait_until ser e (PInt i) False h w = Some (Inl Empty, h', w')
                  \<and> cursor h' = i \<and> db w' = D \<and> \<not> auto_commit h'"
proof (induction k arbitrary: h w)
  case 0
  then have "e - clock w \<le> 0" by simp
  with 0 show ?case
    by (subst wait_until.simps) (simp add: Let_def)
next
  case (Suc k)
  show ?case
  proof (cases "e - clock w \<le> 0")
    case True
    with Suc.prems show ?thesis
      by (subst wait_until.simps) (simp add: Let_def)
  next
    case late: False
    define d where "d = (if TICK_FOR_WAIT < e - clock w then TICK_FOR_WAIT else e - clock w)"
    let ?h0 = "h\<lparr>put_event := False\<rparr>"
    let ?w1 = "event_wait d w"
    let ?h1 = "?h0\<lparr>cursor := i, total := total ?h0 - 1\<rparr>"
    have m: "first_asc (filter (\<lambda>y. row_id y = i) (rows (db ?w1))) = Some m"
      using assms(1) Suc.prems(4) by (simp add: event_wait_def)
    have sp: "self_pop ser (PInt i) False ?h0 ?w1 = (Inr PNone, ?h1, ?w1)"
      using self_pop_by_id_exact [OF _ _ m, of ?h0 ser False] Suc.prems(2,3) assms(2) by simp
    have rem: "e - clock ?w1 \<le> TICK_FOR_WAIT * of_nat k"
      using Suc.prems(1) late by (auto simp: d_def event_wait_def TICK_FOR_WAIT_def algebra_simps)
    from Suc.IH [OF rem, of ?h1] Suc.prems(2,3,4) obtain h' w' where
      r: "wait_until ser e (PInt i) False ?h1 ?w1 = Some (Inl Empty, h', w')"
        "cursor h' = i" "db w' = D" "\<not> auto_commit h'"
      by (auto simp: event_wait_def)
    have "wait_until ser e (PInt i) False h w = wait_until ser e (PInt i) False ?h1 ?w1"
      using late sp by (subst wait_until.simps) (simp add: Let_def d_def)
    with r show ?thesis by simp
  qed
qed

text \<open>Without a deadline it never ends.\<close>

lemma wait_forever_by_id_none:
  assumes m: "first_asc (filter (\<lambda>y. row_id y = i) (rows D)) = Some m"
    and n: "loads ser (row_data m) = PNone"
    and run: "wait_forever ser (PInt i) False h w = Some out"
  shows "\<not> (\<not> auto_commit h \<and> variant h \<noteq> MySQLQueue \<and> db w = D)"
proof -
  let ?P = "\<lambda>s ri rw (h :: handle) (w :: 'a world) (out :: 'a outcome).
              s = ser \<and> ri = PInt i \<and> rw = False \<longrightarrow>
              \<not> (\<not> auto_commit h \<and> variant h \<noteq> MySQLQueue \<and> db w = D)"
  have "?P ser (PInt i) False h w out"
  proof (rule wait_forever.raw_induct [where P = ?P, OF _ run])
    fix wf s ri rw h1 and w1 :: "'a world" and out
    assume IH: "\<And>s ri rw h1 w1 out. wf s ri rw h1 w1 = Some out \<Longrightarrow> ?P s ri rw h1 w1 out"
      and body: "(case self_pop s ri rw (h1\<lparr>put_event := False\<rparr>) (event_wait TICK_FOR_WAIT w1) of
                    (Inl e, h', w') \<Rightarrow> Some (Inl e, h', w')
                  | (Inr v, h', w') \<Rightarrow>
                      if v = PNone then wf s ri rw h' w' else Some (Inr v, h', w')) = Some out"
    show "?P s ri rw h1 w1 out"
    proof (intro impI notI, elim conjE)
      assume eq: "s = ser" "ri = PInt i" "rw = False"
        and c: "\<not> auto_commit h1" "variant h1 \<noteq> MySQLQueue" "db w1 = D"
      let ?h0 = "h1\<lparr>put_event := False\<rparr>"
      let ?w1 = "event_wait TICK_FOR_WAIT w1"
      let ?h1 = "?h0\<lparr>cursor := i, total := total ?h0 - 1\<rparr>"
      have m': "first_asc (filter (\<lambda>y. row_id y = i) (rows (db ?w1))) = Some m"
        using m c(3) by (simp add: event_wait_def)
      have sp: "self_pop ser (PInt i) False ?h0 ?w1 = (Inr PNone, ?h1, ?w1)"
        using self_pop_by_id_exact [OF _ _ m', of ?h0 ser False] c n by simp
      with body eq have "wf ser (PInt i) False ?h1 ?w1 = Some out" by simp
      from IH [OF this] c show False by (simp add: event_wait_def)
    qed
  qed
  then show ?thesis by simp
qed

text \<open>
  C10. In deferred-commit mode, on the classes that share \<^verbatim>\<open>SQLiteQueue._pop\<close>, a get
  that is given the id of a present row (as an integer or as a raw record) returns, with
  the cursor at that id and the table as it was, and \<^verbatim>\<open>task_done\<close> then leaves exactly
  the rows with a greater id, whether or not a get ever returned the others. The get
  returns the record (or, when the payload is \<^verbatim>\<open>None\<close> and the get is not raw, raises
  \<^verbatim>\<open>Empty\<close>) in every blocking mode but one: blocking without a timeout on a payload
  \<^verbatim>\<open>None\<close>, not raw, it never returns.
\<close>

theorem explicit_id_get_then_task_done:
  assumes "\<not> auto_commit h" and "variant h \<noteq> MySQLQueue"
    and "rowid_of ident = PInt i"
    and "x \<in> set (rows (db w))" and "row_id x = i"
    and "\<And>t. block \<Longrightarrow> timeout = Some t \<Longrightarrow> 0 \<le> t"
  shows "\<exists>m\<in>set (rows (db w)). row_id m = i \<and>
          (if block \<and> timeout = None \<and> \<not> raw \<and> loads ser (row_data m) = PNone
           then get ser block timeout ident raw h w = None
           else \<exists>res h' w'.
                  get ser block timeout ident raw h w = Some (res, h', w')
                \<and> res = (if raw then Inr (raw_record i (loads ser (row_data m)) (row_ts m))
                         else if loads ser (row_data m) = PNone then Inl Empty
                         else Inr (loads ser (row_data m)))
                \<and> cursor h' = i \<and> db w' = db w
                \<and> rows (db (task_done h' w')) = filter (\<lambda>r. i < row_id r) (rows (db w)))"
proof -
  from assms(4,5) have "filter (\<lambda>y. row_id y = i) (rows (db w)) \<noteq> []"
    by (auto simp: filter_empty_conv)
  then obtain m where m: "first_asc (filter (\<lambda>y. row_id y = i) (rows (db w))) = Some m"
    by (auto simp: first_asc_def)
  from first_asc_in [OF m] have mi: "m \<in> set (rows (db w))" "row_id m = i" by auto
  let ?v = "if raw then raw_record i (loads ser (row_data m)) (row_ts m) else loads ser (row_data m)"
  let ?h1 = "h\<lparr>cursor := i, total := total h - 1\<rparr>"
  have sp: "self_pop ser (rowid_of ident) raw h w = (Inr ?v, ?h1, w)"
    using self_pop_by_id_exact [OF assms(1,2) m] assms(3) by simp
  have td: "rows (db (task_done h' w')) = filter (\<lambda>r. i < row_id r) (rows (db w))"
    if "cursor h' = i" "db w' = db w" "\<not> auto_commit h'" for h' and w' :: "'a world"
    using that by (simp add: task_done_def sql_delete_def sql_task_done_def not_le)
  have td1: "rows (db (task_done ?h1 w)) = filter (\<lambda>r. i < row_id r) (rows (db w))"
    using assms(1) by (intro td) simp_all
  show ?thesis
  proof (cases "raw \<or> loads ser (row_data m) \<noteq> PNone")
    case True
    then have "?v \<noteq> PNone" by (auto simp: raw_record_not_None)
    from get_returns_first_pop [OF sp this assms(6)]
    have "get ser block timeout ident raw h w = Some (Inr ?v, ?h1, w)" .
    with True td1 mi show ?thesis by (intro bexI [of _ m]) auto
  next
    case False
    then have nr: "\<not> raw" and n: "loads ser (row_data m) = PNone" by auto
    from sp nr n have sp0: "self_pop ser (PInt i) False h w = (Inr PNone, ?h1, w)"
      using assms(3) by simp
    show ?thesis
    proof (cases block)
      case False
      with sp0 nr assms(3) have "get ser block timeout ident raw h w = Some (Inl Empty, ?h1, w)"
        by (simp add: get_def)
      with False nr n td1 mi show ?thesis by (intro bexI [of _ m]) auto
    next
      case True
      show ?thesis
      proof (cases timeout)
        case None
        have "wait_forever ser (PInt i) False ?h1 w = None"
        proof (cases "wait_forever ser (PInt i) False ?h1 w")
          case (Some out)
          from wait_forever_by_id_none [OF m n Some] assms(1,2) show ?thesis by simp
        qed simp
        with sp0 True None nr assms(3) have "get ser block timeout ident raw h w = None"
          by (simp add: get_def)
        with True None nr n mi show ?thesis by (intro bexI [of _ m]) auto
      next
        case (Some t)
        with True assms(6) have t: "0 \<le> t" by simp
        obtain k :: nat where k: "t \<le> of_nat k * TICK_FOR_WAIT"
          using real_arch_simple [of "t / 10"] by (auto simp: TICK_FOR_WAIT_def field_simps)
        have "clock w + t - clock w \<le> TICK_FOR_WAIT * of_nat k"
          using k by (simp add: mult.commute)
        from wait_until_by_id_none [OF m n this, of ?h1] assms(1,2)
        obtain h' w' where r: "wait_until ser (clock w + t) (PInt i) False ?h1 w = Some (Inl Empty, h', w')"
          "cursor h' = i" "db w' = db w" "\<not> auto_commit h'"
          by auto
        from sp0 True Some t nr assms(3) r(1)
        have "get ser block timeout ident raw h w = Some (Inl Empty, h', w')"
          by (simp add: get_def Let_def not_less [symmetric])
        with True Some nr n mi r td [OF r(2,3,4)] show ?thesis
          by (intro bexI [of _ m]) auto
      qed
    qed
  qed
qed

theorem explicit_id_get_then_task_done_witness:
  "\<exists>h' w'. get plain True None (PInt 3) False (init (fresh SQLiteQueue False) table3) table3
              = Some (Inr (PStr ''c''), h', w')
        \<and> cursor h' = 3 \<and> db w' = db table3 \<and> rows (db (task_done h' w')) = []"
proof -
  let ?h = "init (fresh SQLiteQueue False) table3"
  have a: "\<not> auto_commit ?h" "variant ?h \<noteq> MySQLQueue" "rowid_of (PInt 3) = PInt 3"
    "(3, PStr ''c'', 6) \<in> set (rows (db table3))" "row_id (3 :: int, PStr ''c'', 6 :: rat) = 3"
    by (simp_all add: run_defs)
  have "\<exists>m\<in>set (rows (db table3)). row_id m = 3 \<and>
          (if True \<and> (None :: rat option) = None \<and> \<not> False \<and> loads plain (row_data m) = PNone
           then get plain True None (PInt 3) False ?h table3 = None
           else \<exists>res h' w'.
                  get plain True None (PInt 3) False ?h table3 = Some (res, h', w')
                \<and> res = (if False then Inr (raw_record 3 (loads plain (row_data m)) (row_ts m))
                         else if loads plain (row_data m) = PNone then Inl Empty
                         else Inr (loads plain (row_data m)))
                \<and> cursor h' = 3 \<and> db w' = db table3
                \<and> rows (db (task_done h' w')) = filter (\<lambda>r. 3 < row_id r) (rows (db table3)))"
    by (rule explicit_id_get_then_task_done [OF a]) simp
  then obtain m where m: "m \<in> set (rows (db table3))" "row_id m = 3"
    and c: "if True \<and> (None :: rat option) = None \<and> \<not> False \<and> loads plain (row_data m) = PNone
           then get plain True None (PInt 3) False ?h table3 = None
           else \<exists>res h' w'.
                  get plain True None (PInt 3) False ?h table3 = Some (res, h', w')
                \<and> res = (if False then Inr (raw_record 3 (loads plain (row_data m)) (row_ts m))
                         else if loads plain (row_data m) = PNone then Inl Empty
                         else Inr (loads plain (row_data m)))
                \<and> cursor h' = 3 \<and> db w' = db table3
                \<and> rows (db (task_done h' w')) = filter (\<lambda>r. 3 < row_id r) (rows (db table3))"
    by blast
  from m have "m = (3, PStr ''c'', 6)"
    by (auto simp: table3_def row_id_def)
  with c show ?thesis
    by (simp add: plain_def row_data_def row_id_def table3_def)
qed

end
